theory Spec2Isabelle
  imports Main "HOL-Library.AList" "HOL-Library.Char_ord" "HOL-Library.List_Lexorder"
begin

section \<open>JavaScript values as the route handlers see them\<close>

text \<open>
  \<open>express.json\<close> hands every handler a request body that is the result of
  \<open>JSON.parse\<close>, so the values a handler works on are JSON values. A number is modelled
  as an integer (fractions and exponents are floating point and are left out); a string
  is a list of code units below 256; an object is the list of its own enumerable
  properties in enumeration order. A value that is \<open>undefined\<close> (a field the body does
  not have) is \<open>None\<close> of \<open>json option\<close>.
\<close>

datatype json =
    JNull
  | JBool bool
  | JNum int
  | JStr string
  | JArr "json list"
  | JObj "(string \<times> json) list"

text \<open>ToBoolean: what \<open>!x\<close>, \<open>x && y\<close> and \<open>x || y\<close> test.\<close>

fun truthy :: "json option \<Rightarrow> bool" where
  "truthy None = False"
| "truthy (Some JNull) = False"
| "truthy (Some (JBool b)) = b"
| "truthy (Some (JNum n)) = (n \<noteq> 0)"
| "truthy (Some (JStr s)) = (s \<noteq> [])"
| "truthy (Some (JArr xs)) = True"
| "truthy (Some (JObj kvs)) = True"

text \<open>The \<open>typeof\<close> operator: \<open>null\<close> and arrays are \<open>'object'\<close>.\<close>

fun typeof :: "json option \<Rightarrow> string" where
  "typeof None = ''undefined''"
| "typeof (Some JNull) = ''object''"
| "typeof (Some (JBool b)) = ''boolean''"
| "typeof (Some (JNum n)) = ''number''"
| "typeof (Some (JStr s)) = ''string''"
| "typeof (Some (JArr xs)) = ''object''"
| "typeof (Some (JObj kvs)) = ''object''"

subsection \<open>Decimal numerals\<close>

definition digit_char :: "nat \<Rightarrow> char" where
  "digit_char d = char_of (48 + d)"

fun show_nat :: "nat \<Rightarrow> string" where
  "show_nat n = (if n < 10 then [digit_char n] else show_nat (n div 10) @ [digit_char (n mod 10)])"

declare show_nat.simps [simp del]

definition show_int :: "int \<Rightarrow> string" where
  "show_int i = (if i < 0 then CHR ''-'' # show_nat (nat (- i)) else show_nat (nat i))"

definition is_digit :: "char \<Rightarrow> bool" where
  "is_digit c = (CHR ''0'' \<le> c \<and> c \<le> CHR ''9'')"

definition digit_val :: "char \<Rightarrow> nat" where
  "digit_val c = of_char c - 48"

definition digits_value :: "string \<Rightarrow> nat" where
  "digits_value ds = foldl (\<lambda>acc c. 10 * acc + digit_val c) 0 ds"

subsection \<open>Objects\<close>

text \<open>
  \<open>Object.entries\<close>: the own enumerable properties of an object; of an array, its
  elements under their indices. The handlers call it only on values that passed
  \<open>x && typeof x === 'object'\<close>, which are objects and arrays.
\<close>

fun Object_entries :: "json \<Rightarrow> (string \<times> json) list" where
  "Object_entries (JObj kvs) = kvs"
| "Object_entries (JArr xs) = zip (map show_nat [0 ..< length xs]) xs"
| "Object_entries v = []"

text \<open>
  \<open>obj[key] = value\<close> on an object created by the literal \<open>{}\<close>. The key
  \<open>__proto__\<close> is the accessor inherited from \<open>Object.prototype\<close>: assigning to it
  sets the prototype (or does nothing, for a primitive value) and creates no own
  property. Every other key becomes an own property, replacing the value in place when
  the property exists already.
\<close>

definition js_assign :: "(string \<times> json) list \<Rightarrow> string \<Rightarrow> json \<Rightarrow> (string \<times> json) list" where
  "js_assign obj key v = (if key = ''__proto__'' then obj else AList.update key v obj)"

text \<open>
  CreateDataProperty, which \<open>JSON.parse\<close> uses for the members of an object text: it
  defines an own property whatever the key is, a later duplicate replacing the earlier
  value.
\<close>

definition create_properties :: "(string \<times> json) list \<Rightarrow> (string \<times> json) list" where
  "create_properties kvs = foldl (\<lambda>obj (k, v). AList.update k v obj) [] kvs"

section \<open>JSON.stringify and JSON.parse\<close>

definition hex_char :: "nat \<Rightarrow> char" where
  "hex_char d = (if d < 10 then char_of (48 + d) else char_of (87 + d))"

definition quote_char :: "char \<Rightarrow> string" where
  "quote_char c =
     (if c = CHR 0x22 then [CHR 0x5C, CHR 0x22]
      else if c = CHR 0x5C then [CHR 0x5C, CHR 0x5C]
      else if c = CHR 0x08 then [CHR 0x5C, CHR ''b'']
      else if c = CHR 0x0C then [CHR 0x5C, CHR ''f'']
      else if c = CHR 0x0A then [CHR 0x5C, CHR ''n'']
      else if c = CHR 0x0D then [CHR 0x5C, CHR ''r'']
      else if c = CHR 0x09 then [CHR 0x5C, CHR ''t'']
      else if (of_char c :: nat) < 32
        then [CHR 0x5C, CHR ''u'', CHR ''0'', CHR ''0'',
              hex_char (of_char c div 16), hex_char (of_char c mod 16)]
      else [c])"

definition quote_string :: "string \<Rightarrow> string" where
  "quote_string s = CHR 0x22 # concat (map quote_char s) @ [CHR 0x22]"

fun join_comma :: "string list \<Rightarrow> string" where
  "join_comma [] = []"
| "join_comma [x] = x"
| "join_comma (x # y # ys) = x @ CHR '','' # join_comma (y # ys)"

fun JSON_stringify :: "json \<Rightarrow> string" where
  "JSON_stringify JNull = ''null''"
| "JSON_stringify (JBool b) = (if b then ''true'' else ''false'')"
| "JSON_stringify (JNum n) = show_int n"
| "JSON_stringify (JStr s) = quote_string s"
| "JSON_stringify (JArr xs) = CHR ''['' # join_comma (map JSON_stringify xs) @ '']''"
| "JSON_stringify (JObj kvs) =
     CHR ''{'' # join_comma (map (\<lambda>(k, v). quote_string k @ CHR '':'' # JSON_stringify v) kvs) @ ''}''"

text \<open>The parser: JSON whitespace, string escapes, integer literals, arrays, objects.\<close>

definition is_ws :: "char \<Rightarrow> bool" where
  "is_ws c = (c = CHR '' '' \<or> c = CHR 0x09 \<or> c = CHR 0x0A \<or> c = CHR 0x0D)"

definition skip_ws :: "string \<Rightarrow> string" where
  "skip_ws s = dropWhile is_ws s"

definition hex_val :: "char \<Rightarrow> nat option" where
  "hex_val c =
     (if CHR ''0'' \<le> c \<and> c \<le> CHR ''9'' then Some (of_char c - 48)
      else if CHR ''a'' \<le> c \<and> c \<le> CHR ''f'' then Some (of_char c - 87)
      else if CHR ''A'' \<le> c \<and> c \<le> CHR ''F'' then Some (of_char c - 55)
      else None)"

text \<open>A \<open>\uXXXX\<close> escape; code units from 256 on are outside the modelled strings.\<close>

definition unicode_escape :: "char \<Rightarrow> char \<Rightarrow> char \<Rightarrow> char \<Rightarrow> char option" where
  "unicode_escape a b c d =
     (case (hex_val a, hex_val b, hex_val c, hex_val d) of
        (Some x, Some y, Some z, Some w) \<Rightarrow>
          (if x = 0 \<and> y = 0 then Some (char_of (16 * z + w)) else None)
      | _ \<Rightarrow> None)"

definition simple_escape :: "char \<Rightarrow> char option" where
  "simple_escape e =
     (if e = CHR 0x22 then Some (CHR 0x22)
      else if e = CHR 0x5C then Some (CHR 0x5C)
      else if e = CHR ''/'' then Some (CHR ''/'')
      else if e = CHR ''b'' then Some (CHR 0x08)
      else if e = CHR ''f'' then Some (CHR 0x0C)
      else if e = CHR ''n'' then Some (CHR 0x0A)
      else if e = CHR ''r'' then Some (CHR 0x0D)
      else if e = CHR ''t'' then Some (CHR 0x09)
      else None)"

definition cons_result :: "'a \<Rightarrow> ('a list \<times> string) option \<Rightarrow> ('a list \<times> string) option" where
  "cons_result x r = (case r of None \<Rightarrow> None | Some (xs, rest) \<Rightarrow> Some (x # xs, rest))"

text \<open>The characters of a string literal, after its opening quote.\<close>

fun parse_string :: "string \<Rightarrow> (string \<times> string) option" where
  "parse_string [] = None"
| "parse_string (c # cs) =
     (if c = CHR 0x22 then Some ([], cs)
      else if c = CHR 0x5C then
        (case cs of
           [] \<Rightarrow> None
         | e # r \<Rightarrow>
             (if e = CHR ''u'' then
                (case r of
                   h1 # h2 # h3 # h4 # r' \<Rightarrow>
                     (case unicode_escape h1 h2 h3 h4 of
                        None \<Rightarrow> None
                      | Some ch \<Rightarrow> cons_result ch (parse_string r'))
                 | _ \<Rightarrow> None)
              else
                (case simple_escape e of
                   None \<Rightarrow> None
                 | Some ch \<Rightarrow> cons_result ch (parse_string r))))
      else if (of_char c :: nat) < 32 then None
      else cons_result c (parse_string cs))"

text \<open>
  An integer literal: an optional minus sign, then \<open>0\<close> or a digit string that does
  not start with \<open>0\<close>. A fraction or an exponent is outside the modelled numbers.
\<close>

definition parse_number :: "string \<Rightarrow> (json \<times> string) option" where
  "parse_number s =
     (let neg = (s \<noteq> [] \<and> hd s = CHR ''-'');
          s1 = (if neg then tl s else s);
          ds = takeWhile is_digit s1;
          r = dropWhile is_digit s1
      in if ds = [] \<or> (1 < length ds \<and> hd ds = CHR ''0'') then None
         else if r \<noteq> [] \<and> (hd r = CHR ''.'' \<or> hd r = CHR ''e'' \<or> hd r = CHR ''E'') then None
         else Some (JNum (if neg then - int (digits_value ds) else int (digits_value ds)), r))"

definition parse_literal :: "string \<Rightarrow> json \<Rightarrow> string \<Rightarrow> (json \<times> string) option" where
  "parse_literal lit v s =
     (if take (length lit) s = lit then Some (v, drop (length lit) s) else None)"

definition parse_scalar :: "string \<Rightarrow> (json \<times> string) option" where
  "parse_scalar s =
     (case s of
        [] \<Rightarrow> None
      | c # cs \<Rightarrow>
          (if c = CHR 0x22 then map_option (apfst JStr) (parse_string cs)
           else if c = CHR ''t'' then parse_literal ''true'' (JBool True) s
           else if c = CHR ''f'' then parse_literal ''false'' (JBool False) s
           else if c = CHR ''n'' then parse_literal ''null'' JNull s
           else parse_number s))"

text \<open>
  The recursive descent over arrays and objects. The first argument bounds the depth of
  the recursion; \<open>JSON_parse\<close> starts it above the length of the text, and every level
  consumes a character, so the bound is never what makes a text fail.
\<close>

fun parse_value :: "nat \<Rightarrow> string \<Rightarrow> (json \<times> string) option"
  and parse_elements :: "nat \<Rightarrow> string \<Rightarrow> (json list \<times> string) option"
  and parse_members :: "nat \<Rightarrow> string \<Rightarrow> ((string \<times> json) list \<times> string) option" where
  "parse_value 0 s = None"
| "parse_value (Suc n) s =
     (case skip_ws s of
        [] \<Rightarrow> None
      | c # cs \<Rightarrow>
          (if c = CHR ''['' then
             (case skip_ws cs of
                [] \<Rightarrow> None
              | d # ds \<Rightarrow>
                  (if d = CHR '']'' then Some (JArr [], ds)
                   else map_option (apfst JArr) (parse_elements n (d # ds))))
           else if c = CHR ''{'' then
             (case skip_ws cs of
                [] \<Rightarrow> None
              | d # ds \<Rightarrow>
                  (if d = CHR ''}'' then Some (JObj [], ds)
                   else map_option (apfst (JObj \<circ> create_properties)) (parse_members n (d # ds))))
           else parse_scalar (c # cs)))"
| "parse_elements 0 s = None"
| "parse_elements (Suc n) s =
     (case parse_value n s of
        None \<Rightarrow> None
      | Some (v, r) \<Rightarrow>
          (case skip_ws r of
             [] \<Rightarrow> None
           | c # cs \<Rightarrow>
               (if c = CHR '','' then cons_result v (parse_elements n cs)
                else if c = CHR '']'' then Some ([v], cs)
                else None)))"
| "parse_members 0 s = None"
| "parse_members (Suc n) s =
     (case skip_ws s of
        [] \<Rightarrow> None
      | q # qs \<Rightarrow>
          (if q \<noteq> CHR 0x22 then None
           else
             (case parse_string qs of
                None \<Rightarrow> None
              | Some (k, r) \<Rightarrow>
                  (case skip_ws r of
                     [] \<Rightarrow> None
                   | c # cs \<Rightarrow>
                       (if c \<noteq> CHR '':'' then None
                        else
                          (case parse_value n cs of
                             None \<Rightarrow> None
                           | Some (v, r') \<Rightarrow>
                               (case skip_ws r' of
                                  [] \<Rightarrow> None
                                | e # es \<Rightarrow>
                                    (if e = CHR '','' then cons_result (k, v) (parse_members n es)
                                     else if e = CHR ''}'' then Some ([(k, v)], es)
                                     else None))))))))"

text \<open>\<open>JSON.parse\<close>: \<open>None\<close> is the SyntaxError it throws.\<close>

definition JSON_parse :: "string \<Rightarrow> json option" where
  "JSON_parse s =
     (case parse_value (Suc (length s)) s of
        None \<Rightarrow> None
      | Some (v, r) \<Rightarrow> (if skip_ws r = [] then Some v else None))"

section \<open>Values that are objects with distinct keys\<close>

text \<open>
  A JavaScript object has each key once. \<open>wf_json\<close> says so of a value and of every
  value inside it; \<open>nodes\<close> counts what the parser has to descend into, and the two
  predicates on the rest of a text say where a number and a value may end.
\<close>

fun wf_json :: "json \<Rightarrow> bool" where
  "wf_json (JArr xs) = (\<forall>x\<in>set xs. wf_json x)"
| "wf_json (JObj kvs) = (distinct (map fst kvs) \<and> (\<forall>v\<in>snd ` set kvs. wf_json v))"
| "wf_json v = True"

fun nodes :: "json \<Rightarrow> nat" where
  "nodes (JArr xs) = 2 + sum_list (map nodes xs)"
| "nodes (JObj kvs) = 2 + sum_list (map (nodes \<circ> snd) kvs)"
| "nodes v = 1"

definition value_end :: "string \<Rightarrow> bool" where
  "value_end rest = (rest = [] \<or> hd rest = CHR '','' \<or> hd rest = CHR '']'' \<or> hd rest = CHR ''}'')"

definition number_end :: "string \<Rightarrow> bool" where
  "number_end rest = (rest = [] \<or> (\<not> is_digit (hd rest) \<and> hd rest \<noteq> CHR ''.''
      \<and> hd rest \<noteq> CHR ''e'' \<and> hd rest \<noteq> CHR ''E''))"

section \<open>The SQLite store\<close>

text \<open>
  The five tables of \<open>db.serialize\<close> at start-up. Every table has an
  \<open>INTEGER PRIMARY KEY AUTOINCREMENT\<close>, so it carries the last id it gave out. The
  \<open>created_at\<close>, \<open>updated_at\<close> and \<open>last_login\<close> columns are left out (no handler
  reads them back); the log's \<open>timestamp\<close> is kept, since a query orders by it. The
  code never switches \<open>PRAGMA foreign_keys\<close> on, so the \<open>FOREIGN KEY\<close> clauses are
  not enforced.
\<close>

record 'r table =
  rows :: "'r list"
  seq :: nat

record user_row =
  users_id :: nat
  users_email :: string
  users_password_hash :: string
  users_name :: string
  users_is_active :: nat

record doc_row =
  doc_id :: nat
  doc_user_id :: nat
  doc_month_key :: string
  doc_data :: string

record settings_row =
  set_id :: nat
  set_user_id :: nat
  set_settings :: string

record log_row =
  log_id :: nat
  log_user_id :: "nat option"
  log_action :: string
  log_details :: string
  log_ip_address :: string
  log_user_agent :: "string option"
  log_timestamp :: nat

record tables =
  users :: "user_row table"
  nutrition_data :: "doc_row table"
  workout_data :: "doc_row table"
  user_settings :: "settings_row table"
  activity_logs :: "log_row table"

text \<open>
  The connection: the tables as the next statement sees them, the tables as they were
  at \<open>BEGIN\<close> while a transaction is open, and the clock \<open>CURRENT_TIMESTAMP\<close> reads.
\<close>

record database =
  content :: tables
  snapshot :: "tables option"
  clock :: nat

datatype sql =
    BEGIN_TRANSACTION
  | COMMIT
  | ROLLBACK
  | UPSERT_nutrition_data nat string string
  | UPSERT_workout_data nat string string
  | UPSERT_user_settings nat string
  | INSERT_users string string string
  | INSERT_activity_logs "nat option" string string string "string option"
  | SELECT_users_by_email string
  | SELECT_nutrition_data nat
  | SELECT_workout_data nat
  | SELECT_user_settings nat
  | SELECT_activity_logs nat int

text \<open>
  What the process was started with and cannot decide itself: which statements the
  storage engine rejects (disk full, I/O error, busy) and with what message,
  \<open>NODE_ENV\<close>, the time of day, \<open>bcrypt.hash\<close> (which may throw) and \<open>jwt.sign\<close>.
\<close>

record env =
  fault :: "sql \<Rightarrow> string option"
  NODE_ENV :: string
  now :: string
  hashPassword :: "string \<Rightarrow> string + string"
  generateToken :: "nat \<Rightarrow> string \<Rightarrow> string"

text \<open>
  \<open>INSERT OR REPLACE\<close> under \<open>UNIQUE(user_id, month_key)\<close>: the row in conflict is
  deleted and the new row is inserted under a fresh id.
\<close>

definition upsert_doc :: "nat \<Rightarrow> string \<Rightarrow> string \<Rightarrow> doc_row table \<Rightarrow> doc_row table" where
  "upsert_doc uid k d t =
     \<lparr>rows = filter (\<lambda>r. \<not> (doc_user_id r = uid \<and> doc_month_key r = k)) (rows t)
               @ [\<lparr>doc_id = Suc (seq t), doc_user_id = uid, doc_month_key = k, doc_data = d\<rparr>],
      seq = Suc (seq t)\<rparr>"

definition upsert_settings :: "nat \<Rightarrow> string \<Rightarrow> settings_row table \<Rightarrow> settings_row table" where
  "upsert_settings uid d t =
     \<lparr>rows = filter (\<lambda>r. set_user_id r \<noteq> uid) (rows t)
               @ [\<lparr>set_id = Suc (seq t), set_user_id = uid, set_settings = d\<rparr>],
      seq = Suc (seq t)\<rparr>"

definition insert_user :: "string \<Rightarrow> string \<Rightarrow> string \<Rightarrow> user_row table \<Rightarrow> user_row table" where
  "insert_user e h n t =
     \<lparr>rows = rows t @ [\<lparr>users_id = Suc (seq t), users_email = e, users_password_hash = h,
                         users_name = n, users_is_active = 1\<rparr>],
      seq = Suc (seq t)\<rparr>"

definition insert_log ::
  "nat \<Rightarrow> nat option \<Rightarrow> string \<Rightarrow> string \<Rightarrow> string \<Rightarrow> string option \<Rightarrow> log_row table \<Rightarrow> log_row table" where
  "insert_log ts uid a d ip ua t =
     \<lparr>rows = rows t @ [\<lparr>log_id = Suc (seq t), log_user_id = uid, log_action = a, log_details = d,
                         log_ip_address = ip, log_user_agent = ua, log_timestamp = ts\<rparr>],
      seq = Suc (seq t)\<rparr>"

text \<open>
  One statement on the engine itself: the error message when the engine refuses it (the
  statement then changes nothing and an open transaction stays open), else \<open>lastID\<close>
  and the new state. The few errors after which SQLite ends the open transaction by
  itself are not modelled.
\<close>

fun execute :: "sql \<Rightarrow> database \<Rightarrow> string option \<times> nat \<times> database" where
  "execute BEGIN_TRANSACTION db =
     (case snapshot db of
        None \<Rightarrow> (None, 0, db\<lparr>snapshot := Some (content db)\<rparr>)
      | Some t \<Rightarrow> (Some ''cannot start a transaction within a transaction'', 0, db))"
| "execute COMMIT db =
     (case snapshot db of
        None \<Rightarrow> (Some ''cannot commit - no transaction is active'', 0, db)
      | Some t \<Rightarrow> (None, 0, db\<lparr>snapshot := None\<rparr>))"
| "execute ROLLBACK db =
     (case snapshot db of
        None \<Rightarrow> (Some ''cannot rollback - no transaction is active'', 0, db)
      | Some t \<Rightarrow> (None, 0, db\<lparr>content := t, snapshot := None\<rparr>))"
| "execute (UPSERT_nutrition_data uid k d) db =
     (let t = upsert_doc uid k d (nutrition_data (content db))
      in (None, seq t, db\<lparr>content := (content db)\<lparr>nutrition_data := t\<rparr>\<rparr>))"
| "execute (UPSERT_workout_data uid k d) db =
     (let t = upsert_doc uid k d (workout_data (content db))
      in (None, seq t, db\<lparr>content := (content db)\<lparr>workout_data := t\<rparr>\<rparr>))"
| "execute (UPSERT_user_settings uid d) db =
     (let t = upsert_settings uid d (user_settings (content db))
      in (None, seq t, db\<lparr>content := (content db)\<lparr>user_settings := t\<rparr>\<rparr>))"
| "execute (INSERT_users e h n) db =
     (if e \<in> users_email ` set (rows (users (content db)))
      then (Some ''SQLITE_CONSTRAINT: UNIQUE constraint failed: users.email'', 0, db)
      else (let t = insert_user e h n (users (content db))
            in (None, seq t, db\<lparr>content := (content db)\<lparr>users := t\<rparr>\<rparr>)))"
| "execute (INSERT_activity_logs uid a d ip ua) db =
     (let t = insert_log (clock db) uid a d ip ua (activity_logs (content db))
      in (None, seq t, db\<lparr>content := (content db)\<lparr>activity_logs := t\<rparr>\<rparr>))"
| "execute q db = (None, 0, db)"

text \<open>\<open>db.run(sql, params, callback)\<close>: what the callback gets as \<open>err\<close> and \<open>this.lastID\<close>.\<close>

definition db_run :: "env \<Rightarrow> sql \<Rightarrow> database \<Rightarrow> string option \<times> nat \<times> database" where
  "db_run env s db = (case fault env s of Some m \<Rightarrow> (Some m, 0, db) | None \<Rightarrow> execute s db)"

text \<open>\<open>db.get\<close> and \<open>db.all\<close> with the five queries of the handlers.\<close>

definition select_users_by_email :: "env \<Rightarrow> string \<Rightarrow> database \<Rightarrow> string + user_row option" where
  "select_users_by_email env e db =
     (case fault env (SELECT_users_by_email e) of
        Some m \<Rightarrow> Inl m
      | None \<Rightarrow> Inr (find (\<lambda>r. users_email r = e) (rows (users (content db)))))"

definition order_by_month_key_desc :: "doc_row list \<Rightarrow> doc_row list" where
  "order_by_month_key_desc rs = rev (sort_key doc_month_key rs)"

definition select_nutrition_data :: "env \<Rightarrow> nat \<Rightarrow> database \<Rightarrow> string + doc_row list" where
  "select_nutrition_data env uid db =
     (case fault env (SELECT_nutrition_data uid) of
        Some m \<Rightarrow> Inl m
      | None \<Rightarrow> Inr (order_by_month_key_desc
                       (filter (\<lambda>r. doc_user_id r = uid) (rows (nutrition_data (content db))))))"

definition select_workout_data :: "env \<Rightarrow> nat \<Rightarrow> database \<Rightarrow> string + doc_row list" where
  "select_workout_data env uid db =
     (case fault env (SELECT_workout_data uid) of
        Some m \<Rightarrow> Inl m
      | None \<Rightarrow> Inr (order_by_month_key_desc
                       (filter (\<lambda>r. doc_user_id r = uid) (rows (workout_data (content db))))))"

definition select_user_settings :: "env \<Rightarrow> nat \<Rightarrow> database \<Rightarrow> string + settings_row option" where
  "select_user_settings env uid db =
     (case fault env (SELECT_user_settings uid) of
        Some m \<Rightarrow> Inl m
      | None \<Rightarrow> Inr (find (\<lambda>r. set_user_id r = uid) (rows (user_settings (content db)))))"

text \<open>\<open>LIMIT n\<close>: SQLite puts no upper bound on the rows when \<open>n\<close> is negative.\<close>

definition sql_limit :: "int \<Rightarrow> 'a list \<Rightarrow> 'a list" where
  "sql_limit n xs = (if n < 0 then xs else take (nat n) xs)"

definition select_activity_logs :: "env \<Rightarrow> nat \<Rightarrow> int \<Rightarrow> database \<Rightarrow> string + log_row list" where
  "select_activity_logs env uid n db =
     (case fault env (SELECT_activity_logs uid n) of
        Some m \<Rightarrow> Inl m
      | None \<Rightarrow> Inr (sql_limit n (rev (sort_key log_timestamp
                       (filter (\<lambda>r. log_user_id r = Some uid) (rows (activity_logs (content db))))))))"

section \<open>The route handlers\<close>

text \<open>
  A handler is modelled from the point where \<open>authenticateToken\<close> has called
  \<open>next()\<close>: \<open>req.user\<close> holds the token's \<open>userId\<close> and \<open>email\<close>. A response
  is the status and the JSON body of \<open>res.status(n).json(body)\<close>.
\<close>

record request =
  userId :: nat
  email :: string
  ip :: string
  user_agent :: "string option"

datatype response = Response nat json

text \<open>
  \<open>logActivity\<close> calls \<open>db.run\<close> without a callback: when the insert fails, no
  handler code sees the error. The model follows the store and the response; it does
  not follow the \<open>error\<close> event the driver raises for a failed statement that has
  no callback.
\<close>

definition logActivity :: "env \<Rightarrow> nat option \<Rightarrow> string \<Rightarrow> string \<Rightarrow> request \<Rightarrow> database \<Rightarrow> database" where
  "logActivity env uid action details req db =
     snd (snd (db_run env (INSERT_activity_logs uid action details (ip req) (user_agent req)) db))"

definition handleError :: "env \<Rightarrow> string \<Rightarrow> string \<Rightarrow> response" where
  "handleError env error message =
     Response 500 (JObj ([(''error'', JStr message), (''code'', JStr ''INTERNAL_ERROR'')]
       @ (if NODE_ENV env = ''development'' then [(''details'', JStr error)] else [])))"

definition default_settings :: json where
  "default_settings =
     JObj [(''height'', JNum 177), (''targetBodyFat'', JNum 15), (''currentBodyFat'', JNum 22)]"

subsection \<open>Registration\<close>

text \<open>The fields of the registration body are taken to be strings, or absent.\<close>

record register_body =
  body_email :: "string option"
  body_password :: "string option"
  body_name :: "string option"

definition post_api_auth_register ::
  "env \<Rightarrow> request \<Rightarrow> register_body \<Rightarrow> database \<Rightarrow> response \<times> database" where
  "post_api_auth_register env req body db =
     (case (body_email body, body_password body) of
        (Some e, Some password) \<Rightarrow>
          (if e = [] \<or> password = [] then
             (Response 400 (JObj [(''error'', JStr ''Email e password sono richiesti''),
                                  (''code'', JStr ''MISSING_FIELDS'')]), db)
           else if length password < 6 then
             (Response 400 (JObj [(''error'', JStr ''La password deve avere almeno 6 caratteri''),
                                  (''code'', JStr ''PASSWORD_TOO_SHORT'')]), db)
           else
             (case select_users_by_email env e db of
                Inl err \<Rightarrow> (handleError env err ''Errore controllo utente esistente'', db)
              | Inr (Some existingUser) \<Rightarrow>
                  (Response 400 (JObj [(''error'', JStr (''Email gi'' @ [CHR 0xE0] @ '' registrata'')),
                                       (''code'', JStr ''EMAIL_EXISTS'')]), db)
              | Inr None \<Rightarrow>
                  (case hashPassword env password of
                     Inl hashError \<Rightarrow> (handleError env hashError ''Errore nella generazione password'', db)
                   | Inr passwordHash \<Rightarrow>
                       (case db_run env (INSERT_users e passwordHash
                                           (case body_name body of None \<Rightarrow> [] | Some n \<Rightarrow> n)) db of
                          (Some err, lastID, db') \<Rightarrow>
                            (handleError env err ''Errore nella creazione utente'', db')
                        | (None, lastID, db') \<Rightarrow>
                            (Response 201 (JObj
                               [(''message'', JStr ''Registrazione completata con successo''),
                                (''token'', JStr (generateToken env lastID e)),
                                (''user'', JObj ([(''id'', JNum (int lastID)), (''email'', JStr e)]
                                   @ (case body_name body of
                                        None \<Rightarrow> []
                                      | Some n \<Rightarrow> [(''name'', JStr n)])))]),
                             logActivity env (Some lastID) ''REGISTER'' ''Nuovo utente registrato''
                               req db')))))
      | _ \<Rightarrow>
          (Response 400 (JObj [(''error'', JStr ''Email e password sono richiesti''),
                               (''code'', JStr ''MISSING_FIELDS'')]), db))"

subsection \<open>Reading documents\<close>

text \<open>
  The \<open>rows.forEach\<close> loop of the three read handlers: a row whose \<open>data\<close> does not
  parse is logged and skipped, every other row is assigned to the result object under
  its month key.
\<close>

definition collect_rows :: "doc_row list \<Rightarrow> (string \<times> json) list" where
  "collect_rows rs =
     foldl (\<lambda>obj row. case JSON_parse (doc_data row) of
                         None \<Rightarrow> obj
                       | Some v \<Rightarrow> js_assign obj (doc_month_key row) v) [] rs"

definition get_api_nutrition :: "env \<Rightarrow> request \<Rightarrow> database \<Rightarrow> response" where
  "get_api_nutrition env req db =
     (case select_nutrition_data env (userId req) db of
        Inl err \<Rightarrow> handleError env err ''Errore recupero dati nutrizionali''
      | Inr rs \<Rightarrow> Response 200 (JObj [(''nutrition'', JObj (collect_rows rs))]))"

definition get_api_workouts :: "env \<Rightarrow> request \<Rightarrow> database \<Rightarrow> response" where
  "get_api_workouts env req db =
     (case select_workout_data env (userId req) db of
        Inl err \<Rightarrow> handleError env err ''Errore recupero dati allenamenti''
      | Inr rs \<Rightarrow> Response 200 (JObj [(''workouts'', JObj (collect_rows rs))]))"

text \<open>
  \<open>row ? JSON.parse(row.settings) : {...}\<close> inside \<open>try\<close>, the same object in
  \<open>catch\<close>.
\<close>

definition settings_of_row :: "settings_row option \<Rightarrow> json" where
  "settings_of_row row =
     (case row of
        None \<Rightarrow> default_settings
      | Some r \<Rightarrow> (case JSON_parse (set_settings r) of
                     None \<Rightarrow> default_settings
                   | Some v \<Rightarrow> v))"

definition get_api_settings :: "env \<Rightarrow> request \<Rightarrow> database \<Rightarrow> response" where
  "get_api_settings env req db =
     (case select_user_settings env (userId req) db of
        Inl err \<Rightarrow> handleError env err ''Errore recupero impostazioni''
      | Inr row \<Rightarrow> Response 200 (JObj [(''settings'', settings_of_row row)]))"

text \<open>
  \<open>GET /api/sync\<close>: the three queries, then \<open>Promise.all\<close>; the first query that
  fails rejects it.
\<close>

definition get_api_sync :: "env \<Rightarrow> request \<Rightarrow> database \<Rightarrow> response \<times> database" where
  "get_api_sync env req db =
     (case select_nutrition_data env (userId req) db of
        Inl err \<Rightarrow> (handleError env err ''Errore nella sincronizzazione'',
                     logActivity env (Some (userId req)) ''SYNC_ERROR'' err req db)
      | Inr nrows \<Rightarrow>
     (case select_workout_data env (userId req) db of
        Inl err \<Rightarrow> (handleError env err ''Errore nella sincronizzazione'',
                     logActivity env (Some (userId req)) ''SYNC_ERROR'' err req db)
      | Inr wrows \<Rightarrow>
     (case select_user_settings env (userId req) db of
        Inl err \<Rightarrow> (handleError env err ''Errore nella sincronizzazione'',
                     logActivity env (Some (userId req)) ''SYNC_ERROR'' err req db)
      | Inr row \<Rightarrow>
          (let nutrition = collect_rows nrows; workouts = collect_rows wrows
           in (Response 200 (JObj
                 [(''nutrition'', JObj nutrition),
                  (''workouts'', JObj workouts),
                  (''settings'', settings_of_row row),
                  (''lastSync'', JStr (now env)),
                  (''user'', JObj [(''id'', JNum (int (userId req))), (''email'', JStr (email req))])]),
               logActivity env (Some (userId req)) ''SYNC_GET''
                 (''Retrieved '' @ show_nat (length nutrition) @ '' nutrition months, ''
                    @ show_nat (length workouts) @ '' workout months'') req db)))))"

subsection \<open>Writing one document\<close>

definition post_api_nutrition ::
  "env \<Rightarrow> request \<Rightarrow> string \<Rightarrow> json option \<Rightarrow> database \<Rightarrow> response \<times> database" where
  "post_api_nutrition env req monthKey data db =
     (case data of
        Some d \<Rightarrow>
          (if \<not> truthy data then
             (Response 400 (JObj [(''error'', JStr ''Dati nutrizionali richiesti''),
                                  (''code'', JStr ''MISSING_DATA'')]), db)
           else
             (case db_run env (UPSERT_nutrition_data (userId req) monthKey (JSON_stringify d)) db of
                (Some err, lastID, db') \<Rightarrow>
                  (handleError env err ''Errore salvataggio dati nutrizionali'', db')
              | (None, lastID, db') \<Rightarrow>
                  (Response 200 (JObj [(''message'', JStr ''Dati nutrizionali salvati''),
                                       (''monthKey'', JStr monthKey),
                                       (''rowId'', JNum (int lastID))]),
                   logActivity env (Some (userId req)) ''NUTRITION_SAVE''
                     (''Saved nutrition data for '' @ monthKey) req db')))
      | None \<Rightarrow>
          (Response 400 (JObj [(''error'', JStr ''Dati nutrizionali richiesti''),
                               (''code'', JStr ''MISSING_DATA'')]), db))"

definition post_api_workouts ::
  "env \<Rightarrow> request \<Rightarrow> string \<Rightarrow> json option \<Rightarrow> database \<Rightarrow> response \<times> database" where
  "post_api_workouts env req monthKey data db =
     (case data of
        Some d \<Rightarrow>
          (if \<not> truthy data then
             (Response 400 (JObj [(''error'', JStr ''Dati allenamenti richiesti''),
                                  (''code'', JStr ''MISSING_DATA'')]), db)
           else
             (case db_run env (UPSERT_workout_data (userId req) monthKey (JSON_stringify d)) db of
                (Some err, lastID, db') \<Rightarrow>
                  (handleError env err ''Errore salvataggio dati allenamenti'', db')
              | (None, lastID, db') \<Rightarrow>
                  (Response 200 (JObj [(''message'', JStr ''Dati allenamenti salvati''),
                                       (''monthKey'', JStr monthKey),
                                       (''rowId'', JNum (int lastID))]),
                   logActivity env (Some (userId req)) ''WORKOUT_SAVE''
                     (''Saved workout data for '' @ monthKey) req db')))
      | None \<Rightarrow>
          (Response 400 (JObj [(''error'', JStr ''Dati allenamenti richiesti''),
                               (''code'', JStr ''MISSING_DATA'')]), db))"

subsection \<open>Writing everything: POST /api/sync\<close>

record sync_body =
  nutrition :: "json option"
  workouts :: "json option"
  settings :: "json option"

text \<open>
  The handler runs to completion before any callback does: inside \<open>db.serialize\<close> it
  hands \<open>BEGIN TRANSACTION\<close>, every upsert and \<open>COMMIT\<close> to the connection, which
  runs them one after the other in that order and calls each statement's callback when
  the statement is done. A statement a callback issues is queued behind the ones already
  handed over. The variables the callbacks share are \<open>hasError\<close>, \<open>operationsCount\<close>
  and the response, once sent.
\<close>

datatype callback = No_callback | Upsert_callback | Commit_callback

record sync_vars =
  hasError :: bool
  operationsCount :: nat
  sent :: "response option"

definition handleTransactionError ::
  "env \<Rightarrow> request \<Rightarrow> string \<Rightarrow> sync_vars \<times> (sql \<times> callback) list
     \<Rightarrow> sync_vars \<times> (sql \<times> callback) list" where
  "handleTransactionError env req error vq =
     (if \<not> hasError (fst vq) then
        ((fst vq)\<lparr>hasError := True,
                  sent := Some (handleError env error ''Errore nel salvataggio bulk'')\<rparr>,
         snd vq @ [(ROLLBACK, No_callback),
                   (INSERT_activity_logs (Some (userId req)) ''SYNC_SAVE_ERROR'' error
                      (ip req) (user_agent req), No_callback)])
      else vq)"

definition run_callback ::
  "env \<Rightarrow> request \<Rightarrow> callback \<Rightarrow> string option \<Rightarrow> sync_vars \<times> (sql \<times> callback) list
     \<Rightarrow> sync_vars \<times> (sql \<times> callback) list" where
  "run_callback env req cb err vq =
     (case cb of
        No_callback \<Rightarrow> vq
      | Upsert_callback \<Rightarrow>
          (case err of
             Some e \<Rightarrow>
               (if \<not> hasError (fst vq) then handleTransactionError env req e vq
                else ((fst vq)\<lparr>operationsCount := operationsCount (fst vq) + 1\<rparr>, snd vq))
           | None \<Rightarrow> ((fst vq)\<lparr>operationsCount := operationsCount (fst vq) + 1\<rparr>, snd vq))
      | Commit_callback \<Rightarrow>
          (case err of
             Some e \<Rightarrow>
               (if \<not> hasError (fst vq) then handleTransactionError env req e vq else vq)
           | None \<Rightarrow>
               (if \<not> hasError (fst vq) then
                  ((fst vq)\<lparr>sent := Some (Response 200 (JObj
                      [(''message'', JStr ''Sincronizzazione completata''),
                       (''operations'', JNum (int (operationsCount (fst vq)))),
                       (''timestamp'', JStr (now env))]))\<rparr>,
                   snd vq @ [(INSERT_activity_logs (Some (userId req)) ''SYNC_SAVE''
                                (''Saved '' @ show_nat (operationsCount (fst vq)) @ '' items'')
                                (ip req) (user_agent req), No_callback)])
                else vq)))"

fun weight :: "sql \<times> callback \<Rightarrow> nat" where
  "weight (s, No_callback) = 1"
| "weight (s, cb) = 3"

function drain ::
  "env \<Rightarrow> request \<Rightarrow> (sql \<times> callback) list \<Rightarrow> sync_vars \<Rightarrow> database \<Rightarrow> sync_vars \<times> database" where
  "drain env req [] vars db = (vars, db)"
| "drain env req ((s, cb) # q) vars db =
     (case db_run env s db of
        (err, lastID, db') \<Rightarrow>
          (case run_callback env req cb err (vars, q) of
             (vars', q') \<Rightarrow> drain env req q' vars' db'))"
  by pat_completeness auto

termination
proof (relation "measure (\<lambda>(env, req, q, vars, db). sum_list (map weight q))")
  show "wf (measure (\<lambda>(env, req, q, vars, db). sum_list (map weight q)))"
    by simp
next
  fix env :: env and req :: request and s cb q vars and db :: database
    and x and err y lastID db' xa vars' q'
  assume "(vars', q') = run_callback env req cb err (vars, q)"
  then have "sum_list (map weight q') < weight (s, cb) + sum_list (map weight q)"
    by (cases cb; cases err)
       (auto simp: run_callback_def handleTransactionError_def split: if_splits)
  then show "((env, req, q', vars', db'), (env, req, (s, cb) # q, vars, db))
               \<in> measure (\<lambda>(env, req, q, vars, db). sum_list (map weight q))"
    by simp
qed

text \<open>
  The upserts the handler issues for one section: none unless the section is truthy and
  \<open>typeof\<close> it is \<open>'object'\<close>, else one for each of its entries. The three upsert
  callbacks are the same code, hence one \<open>Upsert_callback\<close>.
\<close>

definition section_upserts :: "(string \<Rightarrow> string \<Rightarrow> sql) \<Rightarrow> json option \<Rightarrow> sql list" where
  "section_upserts upsert sect =
     (case sect of
        None \<Rightarrow> []
      | Some v \<Rightarrow>
          (if truthy sect \<and> typeof sect = ''object''
           then map (\<lambda>(monthKey, data). upsert monthKey (JSON_stringify data)) (Object_entries v)
           else []))"

definition settings_upsert :: "nat \<Rightarrow> json option \<Rightarrow> sql list" where
  "settings_upsert uid sect =
     (case sect of
        None \<Rightarrow> []
      | Some v \<Rightarrow>
          (if truthy sect \<and> typeof sect = ''object''
           then [UPSERT_user_settings uid (JSON_stringify v)]
           else []))"

definition sync_upserts :: "request \<Rightarrow> sync_body \<Rightarrow> sql list" where
  "sync_upserts req body =
     section_upserts (UPSERT_nutrition_data (userId req)) (nutrition body)
       @ section_upserts (UPSERT_workout_data (userId req)) (workouts body)
       @ settings_upsert (userId req) (settings body)"

definition sync_statements :: "request \<Rightarrow> sync_body \<Rightarrow> (sql \<times> callback) list" where
  "sync_statements req body =
     (BEGIN_TRANSACTION, No_callback)
       # map (\<lambda>s. (s, Upsert_callback)) (sync_upserts req body)
       @ [(COMMIT, Commit_callback)]"

definition post_api_sync ::
  "env \<Rightarrow> request \<Rightarrow> sync_body \<Rightarrow> database \<Rightarrow> response option \<times> database" where
  "post_api_sync env req body db =
     (case drain env req (sync_statements req body)
             \<lparr>hasError = False, operationsCount = 0, sent = None\<rparr> db of
        (vars, db') \<Rightarrow> (sent vars, db'))"

subsection \<open>GET /api/logs\<close>

text \<open>
  \<open>parseInt\<close> with no radix: leading white space, a sign, a \<open>0x\<close> prefix, then the
  longest run of digits; \<open>None\<close> is \<open>NaN\<close>. The query parameter is a string, or
  absent (\<open>parseInt(undefined)\<close> is \<open>NaN\<close>).
\<close>

definition is_js_space :: "char \<Rightarrow> bool" where
  "is_js_space c =
     (c = CHR 0x09 \<or> c = CHR 0x0A \<or> c = CHR 0x0B \<or> c = CHR 0x0C \<or> c = CHR 0x0D
      \<or> c = CHR 0x20 \<or> c = CHR 0xA0)"

definition radix_value :: "nat \<Rightarrow> string \<Rightarrow> nat" where
  "radix_value r ds = foldl (\<lambda>acc c. r * acc + (case hex_val c of None \<Rightarrow> 0 | Some d \<Rightarrow> d)) 0 ds"

definition parseInt :: "string option \<Rightarrow> int option" where
  "parseInt input =
     (case input of
        None \<Rightarrow> None
      | Some inputString \<Rightarrow>
          (let s = dropWhile is_js_space inputString;
               neg = (s \<noteq> [] \<and> hd s = CHR ''-'');
               s1 = (if s \<noteq> [] \<and> (hd s = CHR ''+'' \<or> hd s = CHR ''-'') then tl s else s);
               hex = (take 2 s1 = ''0x'' \<or> take 2 s1 = ''0X'');
               s2 = (if hex then drop 2 s1 else s1);
               z = takeWhile (\<lambda>c. if hex then hex_val c \<noteq> None else is_digit c) s2
           in if z = [] then None
              else if neg then Some (- int (radix_value (if hex then 16 else 10) z))
              else Some (int (radix_value (if hex then 16 else 10) z))))"

text \<open>\<open>Math.min(parseInt(req.query.limit) || 50, 100)\<close>: \<open>NaN\<close> and \<open>0\<close> are falsy.\<close>

definition query_limit :: "string option \<Rightarrow> int" where
  "query_limit input =
     min (case parseInt input of None \<Rightarrow> 50 | Some n \<Rightarrow> (if n = 0 then 50 else n)) 100"

definition log_json :: "log_row \<Rightarrow> json" where
  "log_json r =
     JObj [(''action'', JStr (log_action r)), (''details'', JStr (log_details r)),
           (''timestamp'', JNum (int (log_timestamp r)))]"

definition get_api_logs :: "env \<Rightarrow> request \<Rightarrow> string option \<Rightarrow> database \<Rightarrow> response" where
  "get_api_logs env req limit db =
     (case select_activity_logs env (userId req) (query_limit limit) db of
        Inl err \<Rightarrow> handleError env err ''Errore recupero logs''
      | Inr rs \<Rightarrow> Response 200 (JObj [(''logs'', JArr (map log_json rs))]))"

section \<open>Observations and sample states\<close>

fun status :: "response \<Rightarrow> nat" where
  "status (Response st b) = st"

text \<open>A field of a response body.\<close>

fun body_field :: "string \<Rightarrow> response \<Rightarrow> json option" where
  "body_field k (Response st (JObj kvs)) = map_of kvs k"
| "body_field k r = None"

text \<open>A property of an object value, as a client reads it from a response.\<close>

fun property :: "string \<Rightarrow> json option \<Rightarrow> json option" where
  "property k (Some (JObj kvs)) = map_of kvs k"
| "property k v = None"

text \<open>The number of log rows in the response of \<open>GET /api/logs\<close>.\<close>

definition rows_returned :: "response \<Rightarrow> nat" where
  "rows_returned r = (case body_field ''logs'' r of Some (JArr xs) \<Rightarrow> length xs | _ \<Rightarrow> 0)"

text \<open>The stored payloads of one (user, month-key) in a document table.\<close>

definition stored_docs :: "doc_row table \<Rightarrow> nat \<Rightarrow> string \<Rightarrow> string list" where
  "stored_docs t uid k =
     map doc_data (filter (\<lambda>r. doc_user_id r = uid \<and> doc_month_key r = k) (rows t))"

text \<open>The engine run over a list of statements it does not reject.\<close>

definition apply_statements :: "sql list \<Rightarrow> database \<Rightarrow> database" where
  "apply_statements ss db = foldl (\<lambda>d s. snd (snd (execute s d))) db ss"

fun is_upsert :: "sql \<Rightarrow> bool" where
  "is_upsert (UPSERT_nutrition_data uid k d) = True"
| "is_upsert (UPSERT_workout_data uid k d) = True"
| "is_upsert (UPSERT_user_settings uid d) = True"
| "is_upsert s = False"

text \<open>
  The write requests of the claims: one document through a per-resource endpoint, or
  everything through \<open>POST /api/sync\<close>; and the documents a request submits, in the
  order in which its handler issues their upserts.
\<close>

datatype kind = Nutrition | Workout

datatype write_request =
    Put_one kind request string "json option"
  | Put_all request sync_body

fun handle_write :: "env \<Rightarrow> write_request \<Rightarrow> database \<Rightarrow> database" where
  "handle_write env (Put_one Nutrition req k data) db = snd (post_api_nutrition env req k data db)"
| "handle_write env (Put_one Workout req k data) db = snd (post_api_workouts env req k data db)"
| "handle_write env (Put_all req body) db = snd (post_api_sync env req body db)"

definition section_writes :: "kind \<Rightarrow> nat \<Rightarrow> json option \<Rightarrow> (kind \<times> nat \<times> string \<times> json) list" where
  "section_writes kd uid sect =
     (case sect of
        None \<Rightarrow> []
      | Some v \<Rightarrow>
          (if truthy sect \<and> typeof sect = ''object''
           then map (\<lambda>(k, d). (kd, uid, k, d)) (Object_entries v)
           else []))"

fun writes_of :: "write_request \<Rightarrow> (kind \<times> nat \<times> string \<times> json) list" where
  "writes_of (Put_one kd req k data) =
     (case data of None \<Rightarrow> [] | Some d \<Rightarrow> (if truthy data then [(kd, userId req, k, d)] else []))"
| "writes_of (Put_all req body) =
     section_writes Nutrition (userId req) (nutrition body)
       @ section_writes Workout (userId req) (workouts body)"

fun table_of :: "kind \<Rightarrow> database \<Rightarrow> doc_row table" where
  "table_of Nutrition db = nutrition_data (content db)"
| "table_of Workout db = workout_data (content db)"

text \<open>The writes of a list to one (kind, user, month-key), in order.\<close>

definition writes_to ::
  "kind \<Rightarrow> nat \<Rightarrow> string \<Rightarrow> (kind \<times> nat \<times> string \<times> json) list \<Rightarrow> json list" where
  "writes_to kd uid k ws =
     map (\<lambda>(kd', uid', k', d). d) (filter (\<lambda>(kd', uid', k', d). kd' = kd \<and> uid' = uid \<and> k' = k) ws)"

text \<open>The SQL statement of a submitted document.\<close>

fun statement_of :: "kind \<times> nat \<times> string \<times> json \<Rightarrow> sql" where
  "statement_of (Nutrition, uid, k, d) = UPSERT_nutrition_data uid k (JSON_stringify d)"
| "statement_of (Workout, uid, k, d) = UPSERT_workout_data uid k (JSON_stringify d)"

text \<open>
  The store after \<open>BEGIN\<close>, the upserts of a body and \<open>COMMIT\<close>, none of them
  rejected.
\<close>

definition committed :: "request \<Rightarrow> sync_body \<Rightarrow> database \<Rightarrow> database" where
  "committed req body db =
     (apply_statements (sync_upserts req body) (db\<lparr>snapshot := Some (content db)\<rparr>))\<lparr>snapshot := None\<rparr>"

text \<open>\<open>UNIQUE(user_id, month_key)\<close> as a property of a document table.\<close>

definition unique_keys :: "doc_row table \<Rightarrow> bool" where
  "unique_keys t = distinct (map (\<lambda>r. (doc_user_id r, doc_month_key r)) (rows t))"

text \<open>
  What \<open>handleTransactionError\<close> and the commit callback put on the queue: statements
  without a callback, \<open>ROLLBACK\<close> or a log insert.
\<close>

definition trailing :: "(sql \<times> callback) \<Rightarrow> bool" where
  "trailing x = (snd x = No_callback \<and>
     (fst x = ROLLBACK \<or> (\<exists>u a d i g. fst x = INSERT_activity_logs u a d i g)))"

text \<open>The constraint on both document tables, and on the tables a rollback would restore.\<close>

definition store_unique :: "database \<Rightarrow> bool" where
  "store_unique db =
     (unique_keys (nutrition_data (content db)) \<and> unique_keys (workout_data (content db))
      \<and> (case snapshot db of
            None \<Rightarrow> True
          | Some t \<Rightarrow> unique_keys (nutrition_data t) \<and> unique_keys (workout_data t)))"

definition no_rows :: "'r table" where
  "no_rows = \<lparr>rows = [], seq = 0\<rparr>"

definition empty_database :: database where
  "empty_database =
     \<lparr>content = \<lparr>users = no_rows, nutrition_data = no_rows, workout_data = no_rows,
                  user_settings = no_rows, activity_logs = no_rows\<rparr>,
      snapshot = None, clock = 0\<rparr>"

text \<open>An environment whose storage engine rejects nothing.\<close>

definition quiet_env :: env where
  "quiet_env =
     \<lparr>fault = (\<lambda>s. None), NODE_ENV = ''production'', now = ''2025-08-01T00:00:00.000Z'',
      hashPassword = (\<lambda>p. Inr (''$2b$12$'' @ p)), generateToken = (\<lambda>i e. ''token:'' @ e)\<rparr>"

definition alice :: request where
  "alice = \<lparr>userId = 1, email = ''alice@example.org'', ip = ''127.0.0.1'', user_agent = None\<rparr>"

text \<open>A settings row of user 1 whose text was cut off.\<close>

definition corrupt_settings_database :: database where
  "corrupt_settings_database =
     empty_database\<lparr>content := (content empty_database)
       \<lparr>user_settings := \<lparr>rows = [\<lparr>set_id = 1, set_user_id = 1, set_settings = ''{height:''\<rparr>], seq = 1\<rparr>\<rparr>\<rparr>"

text \<open>One registered user.\<close>

definition registered_database :: database where
  "registered_database =
     empty_database\<lparr>content := (content empty_database)
       \<lparr>users := \<lparr>rows = [\<lparr>users_id = 1, users_email = ''alice@example.org'',
                             users_password_hash = ''$2b$12$secret'', users_name = ''Alice'',
                             users_is_active = 1\<rparr>], seq = 1\<rparr>\<rparr>\<rparr>"

text \<open>\<open>n\<close> log rows of user 1.\<close>

definition database_with_logs :: "nat \<Rightarrow> database" where
  "database_with_logs n =
     empty_database\<lparr>content := (content empty_database)
       \<lparr>activity_logs := \<lparr>rows = map (\<lambda>i. \<lparr>log_id = Suc i, log_user_id = Some 1, log_action = ''LOGIN'',
                                        log_details = ''Login completato'', log_ip_address = ''127.0.0.1'',
                                        log_user_agent = None, log_timestamp = i\<rparr>) [0 ..< n],
                          seq = n\<rparr>\<rparr>\<rparr>"

text \<open>An environment whose storage engine rejects one statement and nothing else.\<close>

definition rejecting :: "sql \<Rightarrow> env" where
  "rejecting bad = quiet_env\<lparr>fault := (\<lambda>s. if s = bad then Some ''disk I/O error'' else None)\<rparr>"

text \<open>Sample bodies, requests and a stored workout document.\<close>

definition two_months :: sync_body where
  "two_months =
     \<lparr>nutrition = Some (JObj [(''2025-07'', JObj [(''kcal'', JNum 2100)]),
                              (''2025-08'', JObj [(''kcal'', JNum 2300)])]),
      workouts = None, settings = None\<rparr>"

definition sample_writes :: "write_request list" where
  "sample_writes =
     [Put_one Nutrition alice ''2025-07'' (Some (JObj [(''kcal'', JNum 1800)])),
      Put_all alice two_months,
      Put_one Workout alice ''2025-07'' (Some (JArr [JStr ''squat''])),
      Put_one Nutrition alice ''2025-07'' (Some (JObj [(''kcal'', JNum 1900)]))]"

definition malformed_workouts :: sync_body where
  "malformed_workouts = two_months\<lparr>workouts := Some (JStr ''none'')\<rparr>"

definition workout_database :: database where
  "workout_database =
     empty_database\<lparr>content := (content empty_database)
       \<lparr>workout_data := \<lparr>rows = [\<lparr>doc_id = 1, doc_user_id = 1, doc_month_key = ''2025-06'',
                                    doc_data = ''[]''\<rparr>], seq = 1\<rparr>\<rparr>\<rparr>"

text \<open>
  Three nutrition rows of user 1: one under the month key \<open>__proto__\<close>, one whose text
  was cut off, one in order.
\<close>

definition proto_database :: database where
  "proto_database =
     empty_database\<lparr>content := (content empty_database)
       \<lparr>nutrition_data :=
          \<lparr>rows = [\<lparr>doc_id = 1, doc_user_id = 1, doc_month_key = ''__proto__'',
                       doc_data = JSON_stringify (JObj [(''kcal'', JNum 2100)])\<rparr>,
                    \<lparr>doc_id = 2, doc_user_id = 1, doc_month_key = ''2025-07'',
                       doc_data = ''{kcal:''\<rparr>,
                    \<lparr>doc_id = 3, doc_user_id = 1, doc_month_key = ''2025-08'',
                       doc_data = JSON_stringify (JObj [(''kcal'', JNum 2300)])\<rparr>],
            seq = 3\<rparr>\<rparr>\<rparr>"

section \<open>JSON.parse inverts JSON.stringify\<close>

subsection \<open>Characters, numerals and strings\<close>

lemma hex_val_hex_char: "d < 16 \<Longrightarrow> hex_val (hex_char d) = Some d"
proof -
  have "\<forall>d\<in>set [0..<16]. hex_val (hex_char d) = Some d"
    by code_simp
  then show "d < 16 \<Longrightarrow> ?thesis" by simp
qed

lemma digit_char_props: "d < 10 \<Longrightarrow> is_digit (digit_char d) \<and> digit_val (digit_char d) = d
    \<and> (0 < d \<longrightarrow> digit_char d \<noteq> CHR ''0'') \<and> digit_char d \<noteq> CHR ''-''"
proof -
  have "\<forall>d\<in>set [0..<10]. is_digit (digit_char d) \<and> digit_val (digit_char d) = d
    \<and> (0 < d \<longrightarrow> digit_char d \<noteq> CHR ''0'') \<and> digit_char d \<noteq> CHR ''-''"
    by code_simp
  then show "d < 10 \<Longrightarrow> ?thesis" by simp
qed

lemma is_digit_not_special:
  "is_digit c \<Longrightarrow> c \<noteq> CHR 0x22 \<and> c \<noteq> CHR ''t'' \<and> c \<noteq> CHR ''f'' \<and> c \<noteq> CHR ''n''
     \<and> c \<noteq> CHR ''['' \<and> c \<noteq> CHR ''{'' \<and> c \<noteq> CHR '']'' \<and> c \<noteq> CHR ''}'' \<and> c \<noteq> CHR ''-'' \<and> \<not> is_ws c"
  by (auto simp: is_digit_def is_ws_def less_eq_char_def)

lemma parse_string_quote_char:
  "parse_string (quote_char c @ r) = cons_result c (parse_string r)"
proof -
  have low: "unicode_escape CHR ''0'' CHR ''0'' (hex_char (of_char c div 16)) (hex_char (of_char c mod 16)) = Some c"
    if "(of_char c :: nat) < 32"
  proof -
    have "(of_char c :: nat) div 16 < 16" "(of_char c :: nat) mod 16 < 16" using that by auto
    then have "unicode_escape CHR ''0'' CHR ''0'' (hex_char (of_char c div 16)) (hex_char (of_char c mod 16))
        = Some (char_of (16 * ((of_char c :: nat) div 16) + of_char c mod 16))"
      by (simp add: unicode_escape_def hex_val_hex_char) (simp add: hex_val_def less_eq_char_def)
    then show ?thesis by simp
  qed
  show ?thesis
    by (auto simp: quote_char_def simple_escape_def low)
qed

lemma show_nat_digits: "list_all is_digit (show_nat n) \<and> show_nat n \<noteq> []"
proof (induction n rule: show_nat.induct)
  case (1 n)
  show ?case
  proof (cases "n < 10")
    case True
    then show ?thesis by (simp add: show_nat.simps [of n] digit_char_props)
  next
    case False
    with 1 show ?thesis by (simp add: show_nat.simps [of n] digit_char_props)
  qed
qed

lemma digits_value_snoc: "digits_value (ds @ [c]) = 10 * digits_value ds + digit_val c"
  by (simp add: digits_value_def)

lemma digits_value_show_nat: "digits_value (show_nat n) = n"
proof (induction n rule: show_nat.induct)
  case (1 n)
  show ?case
  proof (cases "n < 10")
    case True
    then show ?thesis by (simp add: show_nat.simps [of n] digit_char_props digits_value_def)
  next
    case False
    with 1 show ?thesis by (simp add: show_nat.simps [of n] digits_value_snoc digit_char_props)
  qed
qed

lemma hd_show_nat: "0 < n \<Longrightarrow> hd (show_nat n) \<noteq> CHR ''0''"
proof (induction n rule: show_nat.induct)
  case (1 n)
  show ?case
  proof (cases "n < 10")
    case True
    with "1.prems" show ?thesis by (simp add: show_nat.simps [of n] digit_char_props)
  next
    case False
    then have "0 < n div 10" by simp
    with 1 False show ?thesis
      using show_nat_digits [of "n div 10"] by (simp add: show_nat.simps [of n])
  qed
qed

lemma length_show_nat: "1 < length (show_nat n) \<Longrightarrow> 0 < n"
  by (cases "n = 0") (simp_all add: show_nat.simps [of 0])

lemma takeWhile_digits:
  "number_end rest \<Longrightarrow> takeWhile is_digit (show_nat n @ rest) = show_nat n
     \<and> dropWhile is_digit (show_nat n @ rest) = rest"
proof -
  assume "number_end rest"
  then have r: "takeWhile is_digit rest = [] \<and> dropWhile is_digit rest = rest"
    by (cases rest) (auto simp: number_end_def)
  have "\<forall>c\<in>set (show_nat n). is_digit c"
    using show_nat_digits [of n] by (simp add: list_all_iff)
  then show ?thesis
    using r by (simp add: takeWhile_append2 dropWhile_append2)
qed

lemma parse_number_show_int:
  assumes "number_end rest"
  shows "parse_number (show_int i @ rest) = Some (JNum i, rest)"
proof (cases "i < 0")
  case True
  let ?m = "nat (- i)"
  have "0 < ?m" using True by simp
  then have "\<not> (1 < length (show_nat ?m) \<and> hd (show_nat ?m) = CHR ''0'')"
    using hd_show_nat by blast
  then show ?thesis
    using True show_nat_digits [of ?m] takeWhile_digits [OF assms, of ?m] assms
    by (auto simp: parse_number_def show_int_def Let_def digits_value_show_nat number_end_def)
next
  case False
  let ?m = "nat i"
  have d: "is_digit (hd (show_nat ?m))"
    using show_nat_digits [of ?m] by (cases "show_nat ?m") simp_all
  then have h: "hd (show_nat ?m @ rest) \<noteq> CHR ''-''"
    using show_nat_digits [of ?m] is_digit_not_special by (cases "show_nat ?m") auto
  have "\<not> (1 < length (show_nat ?m) \<and> hd (show_nat ?m) = CHR ''0'')"
    using hd_show_nat [of ?m] length_show_nat [of ?m] by auto
  then show ?thesis
    using False h show_nat_digits [of ?m] takeWhile_digits [OF assms, of ?m] assms
    by (auto simp: parse_number_def show_int_def Let_def digits_value_show_nat number_end_def)
qed

lemma parse_string_quoted:
  "parse_string (concat (map quote_char s) @ CHR 0x22 # rest) = Some (s, rest)"
  by (induction s) (simp_all add: parse_string_quote_char cons_result_def)

subsection \<open>Arrays and objects\<close>

lemma value_end_number_end: "value_end rest \<Longrightarrow> number_end rest"
  by (auto simp: value_end_def number_end_def is_digit_def less_eq_char_def)

lemma nodes_pos: "0 < nodes v"
  by (cases v) simp_all

lemma skip_ws_head: "s \<noteq> [] \<Longrightarrow> \<not> is_ws (hd s) \<Longrightarrow> skip_ws s = s"
  by (cases s) (simp_all add: skip_ws_def)

lemma parse_value_scalar:
  "s \<noteq> [] \<Longrightarrow> \<not> is_ws (hd s) \<Longrightarrow> hd s \<noteq> CHR ''['' \<Longrightarrow> hd s \<noteq> CHR ''{'' \<Longrightarrow>
     parse_value (Suc m) s = parse_scalar s"
  by (cases s) (simp_all add: skip_ws_def)

lemma show_int_head:
  "show_int i \<noteq> [] \<and> (is_digit (hd (show_int i)) \<or> hd (show_int i) = CHR ''-'')"
  using show_nat_digits [of "nat i"]
  by (cases "show_nat (nat i)") (auto simp: show_int_def)

lemma parse_scalar_number:
  assumes "value_end rest"
  shows "parse_scalar (show_int i @ rest) = Some (JNum i, rest)"
proof -
  obtain c cs where s: "show_int i = c # cs" and c: "is_digit c \<or> c = CHR ''-''"
    using show_int_head [of i] by (cases "show_int i") auto
  from c have "c \<noteq> CHR 0x22 \<and> c \<noteq> CHR ''t'' \<and> c \<noteq> CHR ''f'' \<and> c \<noteq> CHR ''n''"
    using is_digit_not_special [of c] by auto
  then have "parse_scalar (show_int i @ rest) = parse_number (show_int i @ rest)"
    using s by (simp add: parse_scalar_def)
  then show ?thesis
    by (simp add: parse_number_show_int [OF value_end_number_end [OF assms]])
qed

lemma stringify_head:
  "JSON_stringify v \<noteq> [] \<and> \<not> is_ws (hd (JSON_stringify v))
     \<and> hd (JSON_stringify v) \<noteq> CHR '']'' \<and> hd (JSON_stringify v) \<noteq> CHR ''}''"
proof (cases v)
  case (JNum i)
  then show ?thesis
    using show_int_head [of i] is_digit_not_special [of "hd (show_int i)"]
    by (auto simp: is_ws_def)
qed (simp_all add: is_ws_def quote_string_def)

lemma parse_value_scalars:
  assumes "value_end rest"
  shows "parse_value (Suc m) (JSON_stringify JNull @ rest) = Some (JNull, rest)"
    and "parse_value (Suc m) (JSON_stringify (JBool b) @ rest) = Some (JBool b, rest)"
    and "parse_value (Suc m) (JSON_stringify (JNum i) @ rest) = Some (JNum i, rest)"
    and "parse_value (Suc m) (JSON_stringify (JStr s) @ rest) = Some (JStr s, rest)"
proof -
  show "parse_value (Suc m) (JSON_stringify JNull @ rest) = Some (JNull, rest)"
    by (simp add: skip_ws_def is_ws_def parse_scalar_def parse_literal_def)
  show "parse_value (Suc m) (JSON_stringify (JBool b) @ rest) = Some (JBool b, rest)"
    by (simp add: skip_ws_def is_ws_def parse_scalar_def parse_literal_def)
  have "parse_value (Suc m) (show_int i @ rest) = parse_scalar (show_int i @ rest)"
    using show_int_head [of i] is_digit_not_special [of "hd (show_int i)"]
    by (intro parse_value_scalar) (auto simp: is_ws_def)
  then show "parse_value (Suc m) (JSON_stringify (JNum i) @ rest) = Some (JNum i, rest)"
    by (simp add: parse_scalar_number [OF assms])
  show "parse_value (Suc m) (JSON_stringify (JStr s) @ rest) = Some (JStr s, rest)"
    by (simp add: quote_string_def skip_ws_def is_ws_def parse_scalar_def parse_string_quoted)
qed

lemma parse_elements_stringify:
  assumes "\<And>x n rest. x \<in> set xs \<Longrightarrow> nodes x \<le> n \<Longrightarrow> value_end rest \<Longrightarrow>
             parse_value n (JSON_stringify x @ rest) = Some (x, rest)"
    and "xs \<noteq> []" and "Suc (sum_list (map nodes xs)) \<le> n"
  shows "parse_elements n (join_comma (map JSON_stringify xs) @ CHR '']'' # rest) = Some (xs, rest)"
  using assms
proof (induction xs arbitrary: n)
  case Nil
  then show ?case by simp
next
  case (Cons x xs)
  from Cons.prems(3) obtain m where n: "n = Suc m" by (cases n) auto
  with Cons.prems(3) have m: "nodes x + sum_list (map nodes xs) \<le> m" by simp
  show ?case
  proof (cases xs)
    case Nil
    have "parse_value m (JSON_stringify x @ CHR '']'' # rest) = Some (x, CHR '']'' # rest)"
      using m by (intro Cons.prems(1)) (simp_all add: value_end_def)
    then show ?thesis
      using Nil n by (simp add: skip_ws_def is_ws_def)
  next
    case (Cons y ys)
    let ?tail = "join_comma (map JSON_stringify xs) @ CHR '']'' # rest"
    have "parse_value m (JSON_stringify x @ CHR '','' # ?tail) = Some (x, CHR '','' # ?tail)"
      using m by (intro Cons.prems(1)) (simp_all add: value_end_def)
    moreover have "parse_elements m ?tail = Some (xs, rest)"
    proof (rule Cons.IH)
      show "xs \<noteq> []" using Cons by simp
      show "Suc (sum_list (map nodes xs)) \<le> m" using m nodes_pos [of x] by simp
    qed (simp add: Cons.prems(1))
    ultimately show ?thesis
      using Cons n by (simp add: skip_ws_def is_ws_def cons_result_def)
  qed
qed

lemma parse_members_stringify:
  assumes "\<And>k x n rest. (k, x) \<in> set kvs \<Longrightarrow> nodes x \<le> n \<Longrightarrow> value_end rest \<Longrightarrow>
             parse_value n (JSON_stringify x @ rest) = Some (x, rest)"
    and "kvs \<noteq> []" and "Suc (sum_list (map (nodes \<circ> snd) kvs)) \<le> n"
  shows "parse_members n
           (join_comma (map (\<lambda>(k, v). quote_string k @ CHR '':'' # JSON_stringify v) kvs)
              @ CHR ''}'' # rest) = Some (kvs, rest)"
  using assms
proof (induction kvs arbitrary: n)
  case Nil
  then show ?case by simp
next
  case (Cons kv kvs)
  note vals = Cons.prems(1) and hyp = Cons.IH
  obtain k x where kv: "kv = (k, x)" by (cases kv)
  from Cons.prems(3) obtain m where n: "n = Suc m" by (cases n) auto
  with Cons.prems(3) kv have m: "nodes x + sum_list (map (nodes \<circ> snd) kvs) \<le> m"
    by (simp add: comp_def)
  have key: "parse_string (concat (map quote_char k) @ CHR 0x22 # CHR '':'' # t) = Some (k, CHR '':'' # t)" for t
    by (rule parse_string_quoted)
  have val: "parse_value m (JSON_stringify x @ r) = Some (x, r)" if "value_end r" for r
    using m kv that by (intro vals [of k]) simp_all
  show ?case
  proof (cases kvs)
    case Nil
    have "parse_value m (JSON_stringify x @ CHR ''}'' # rest) = Some (x, CHR ''}'' # rest)"
      by (rule val) (simp add: value_end_def)
    then show ?thesis
      using Nil n kv key by (simp add: skip_ws_def is_ws_def quote_string_def)
  next
    case tl: (Cons y ys)
    let ?tail = "join_comma (map (\<lambda>(k, v). quote_string k @ CHR '':'' # JSON_stringify v) kvs)
                   @ CHR ''}'' # rest"
    have "parse_value m (JSON_stringify x @ CHR '','' # ?tail) = Some (x, CHR '','' # ?tail)"
      by (rule val) (simp add: value_end_def)
    moreover have "parse_members m ?tail = Some (kvs, rest)"
    proof (rule hyp)
      show "kvs \<noteq> []" using tl by simp
      show "Suc (sum_list (map (nodes \<circ> snd) kvs)) \<le> m" using m nodes_pos [of x] by simp
    next
      fix k' x' j r
      assume "(k', x') \<in> set kvs" "nodes x' \<le> j" "value_end r"
      then show "parse_value j (JSON_stringify x' @ r) = Some (x', r)"
        by (intro vals [of k']) simp_all
    qed
    ultimately show ?thesis
      using tl n kv key by (simp add: skip_ws_def is_ws_def cons_result_def quote_string_def)
  qed
qed

lemma update_new_key: "k \<notin> fst ` set al \<Longrightarrow> AList.update k v al = al @ [(k, v)]"
  by (induction al) auto

lemma create_properties_distinct:
  "distinct (map fst kvs) \<Longrightarrow> create_properties kvs = kvs"
proof -
  have "distinct (map fst (acc @ kvs)) \<Longrightarrow>
        foldl (\<lambda>obj (k, v). AList.update k v obj) acc kvs = acc @ kvs" for acc
  proof (induction kvs arbitrary: acc)
    case Nil
    then show ?case by simp
  next
    case (Cons kv kvs)
    obtain k v where kv: "kv = (k, v)" by (cases kv)
    from Cons.prems kv have "k \<notin> fst ` set acc" by auto
    then have "AList.update k v acc = acc @ [(k, v)]" by (rule update_new_key)
    moreover from Cons.prems kv have "distinct (map fst ((acc @ [(k, v)]) @ kvs))" by simp
    ultimately show ?case
      using Cons.IH [of "acc @ [(k, v)]"] kv by simp
  qed
  from this [of "[]"] show "distinct (map fst kvs) \<Longrightarrow> ?thesis"
    by (simp add: create_properties_def)
qed

lemma parse_value_stringify:
  "wf_json v \<Longrightarrow> nodes v \<le> n \<Longrightarrow> value_end rest \<Longrightarrow>
     parse_value n (JSON_stringify v @ rest) = Some (v, rest)"
proof (induction v arbitrary: n rest)
  case JNull
  then obtain m where "n = Suc m" by (cases n) auto
  with JNull show ?case by (simp only: parse_value_scalars)
next
  case (JBool b)
  then obtain m where "n = Suc m" by (cases n) auto
  with JBool show ?case by (simp only: parse_value_scalars)
next
  case (JNum i)
  then obtain m where "n = Suc m" by (cases n) auto
  with JNum show ?case by (simp only: parse_value_scalars)
next
  case (JStr s)
  then obtain m where "n = Suc m" by (cases n) auto
  with JStr show ?case by (simp only: parse_value_scalars)
next
  case (JArr xs)
  from JArr.prems(2) obtain m where n: "n = Suc m" and m: "Suc (sum_list (map nodes xs)) \<le> m"
    by (cases n) auto
  show ?case
  proof (cases xs)
    case Nil
    then show ?thesis using n by (simp add: skip_ws_def is_ws_def)
  next
    case (Cons y ys)
    let ?body = "join_comma (map JSON_stringify xs) @ CHR '']'' # rest"
    have e: "parse_elements m ?body = Some (xs, rest)"
    proof (rule parse_elements_stringify)
      show "xs \<noteq> []" using Cons by simp
      show "Suc (sum_list (map nodes xs)) \<le> m" by (rule m)
    next
      fix x k r
      assume "x \<in> set xs" "nodes x \<le> k" "value_end r"
      then show "parse_value k (JSON_stringify x @ r) = Some (x, r)"
        using JArr.prems(1) by (intro JArr.IH) simp_all
    qed
    have h: "?body \<noteq> [] \<and> \<not> is_ws (hd ?body) \<and> hd ?body \<noteq> CHR '']''"
      using Cons stringify_head [of y] by (cases ys) (simp_all add: hd_append)
    then obtain d ds where b: "?body = d # ds" by (cases ?body) auto
    with h have "skip_ws ?body = d # ds \<and> d \<noteq> CHR '']''"
      by (simp add: skip_ws_def)
    then show ?thesis
      using n e b by (simp add: skip_ws_def is_ws_def)
  qed
next
  case (JObj kvs)
  from JObj.prems(2) obtain m where n: "n = Suc m"
    and m: "Suc (sum_list (map (nodes \<circ> snd) kvs)) \<le> m"
    by (cases n) auto
  from JObj.prems(1) have dk: "create_properties kvs = kvs"
    by (simp add: create_properties_distinct)
  show ?case
  proof (cases kvs)
    case Nil
    then show ?thesis using n by (simp add: skip_ws_def is_ws_def)
  next
    case (Cons y ys)
    let ?body = "join_comma (map (\<lambda>(k, v). quote_string k @ CHR '':'' # JSON_stringify v) kvs)
                   @ CHR ''}'' # rest"
    have e: "parse_members m ?body = Some (kvs, rest)"
    proof (rule parse_members_stringify)
      show "kvs \<noteq> []" using Cons by simp
      show "Suc (sum_list (map (nodes \<circ> snd) kvs)) \<le> m" by (rule m)
    next
      fix k x j r
      assume "(k, x) \<in> set kvs" "nodes x \<le> j" "value_end r"
      then show "parse_value j (JSON_stringify x @ r) = Some (x, r)"
        using JObj.prems(1) by (intro JObj.IH [of "(k, x)"]) (auto simp: image_iff)
    qed
    have h: "?body \<noteq> [] \<and> \<not> is_ws (hd ?body) \<and> hd ?body \<noteq> CHR ''}''"
      using Cons by (cases y; cases ys) (simp_all add: quote_string_def is_ws_def)
    then obtain d ds where b: "?body = d # ds" by (cases ?body) auto
    with h have "skip_ws ?body = d # ds \<and> d \<noteq> CHR ''}''"
      by (simp add: skip_ws_def)
    then show ?thesis
      using n e b dk by (simp add: skip_ws_def is_ws_def)
  qed
qed

lemma length_join_comma: "sum_list (map length ss) \<le> length (join_comma ss)"
  by (induction ss rule: join_comma.induct) simp_all

lemma nodes_le_length: "nodes v \<le> length (JSON_stringify v)"
proof (induction v)
  case (JNum i)
  show ?case using show_int_head [of i] by (cases "show_int i") simp_all
next
  case (JArr xs)
  have "sum_list (map nodes xs) \<le> sum_list (map length (map JSON_stringify xs))"
    unfolding map_map by (rule sum_list_mono) (simp add: JArr.IH)
  also have "\<dots> \<le> length (join_comma (map JSON_stringify xs))"
    by (rule length_join_comma)
  finally show ?case by simp
next
  case (JObj kvs)
  let ?member = "\<lambda>(k, v). quote_string k @ CHR '':'' # JSON_stringify v"
  have "sum_list (map (nodes \<circ> snd) kvs) \<le> sum_list (map length (map ?member kvs))"
    unfolding map_map
  proof (rule sum_list_mono)
    fix kv assume mem: "kv \<in> set kvs"
    obtain k x where kv: "kv = (k, x)" by (cases kv)
    from mem kv have "nodes x \<le> length (JSON_stringify x)"
      by (intro JObj.IH [of "(k, x)"]) auto
    with kv show "(nodes \<circ> snd) kv \<le> (length \<circ> ?member) kv"
      by simp
  qed
  also have "\<dots> \<le> length (join_comma (map ?member kvs))"
    by (rule length_join_comma)
  finally show ?case by simp
qed (simp_all add: quote_string_def)

text \<open>The text written for a value with distinct keys parses back to the value.\<close>

lemma JSON_roundtrip: "wf_json v \<Longrightarrow> JSON_parse (JSON_stringify v) = Some v"
proof -
  assume "wf_json v"
  then have "parse_value (Suc (length (JSON_stringify v))) (JSON_stringify v @ []) = Some (v, [])"
    using nodes_le_length [of v] by (intro parse_value_stringify) (simp_all add: value_end_def)
  then show ?thesis
    by (simp add: JSON_parse_def skip_ws_def)
qed

section \<open>The presence check of the per-resource endpoints\<close>

text \<open>
  C9. \<open>POST /api/nutrition/:monthKey\<close> and \<open>POST /api/workouts/:monthKey\<close> test
  \<open>!data\<close>: a body whose \<open>data\<close> is falsy (\<open>false\<close>, \<open>0\<close>, the empty string,
  \<open>null\<close>, or not there at all) is answered with 400 \<open>MISSING_DATA\<close> and the store
  is left as it was, so these JSON payloads cannot be stored through the two endpoints.
\<close>

theorem falsy_data_is_missing_data:
  assumes "\<not> truthy data"
  shows "post_api_nutrition env req monthKey data db =
           (Response 400 (JObj [(''error'', JStr ''Dati nutrizionali richiesti''),
                                (''code'', JStr ''MISSING_DATA'')]), db)
       \<and> post_api_workouts env req monthKey data db =
           (Response 400 (JObj [(''error'', JStr ''Dati allenamenti richiesti''),
                                (''code'', JStr ''MISSING_DATA'')]), db)"
  using assms by (cases data) (simp_all add: post_api_nutrition_def post_api_workouts_def)

theorem falsy_data_is_missing_data_witness:
  "body_field ''code'' (fst (post_api_nutrition quiet_env alice ''2025-07'' (Some (JBool False)) empty_database))
     = Some (JStr ''MISSING_DATA'')
   \<and> snd (post_api_nutrition quiet_env alice ''2025-07'' (Some (JNum 0)) empty_database) = empty_database
   \<and> body_field ''code'' (fst (post_api_workouts quiet_env alice ''2025-07'' (Some (JStr [])) empty_database))
     = Some (JStr ''MISSING_DATA'')
   \<and> snd (post_api_workouts quiet_env alice ''2025-07'' (Some JNull) empty_database) = empty_database"
  using falsy_data_is_missing_data [of "Some (JBool False)" quiet_env alice "''2025-07''" empty_database]
        falsy_data_is_missing_data [of "Some (JNum 0)" quiet_env alice "''2025-07''" empty_database]
        falsy_data_is_missing_data [of "Some (JStr [])" quiet_env alice "''2025-07''" empty_database]
        falsy_data_is_missing_data [of "Some JNull" quiet_env alice "''2025-07''" empty_database]
  by simp

section \<open>Settings: the default object\<close>

text \<open>
  C6. A user with no row in \<open>user_settings\<close> gets exactly
  \<open>{height: 177, targetBodyFat: 15, currentBodyFat: 22}\<close> from \<open>GET /api/settings\<close>
  and as the \<open>settings\<close> of \<open>GET /api/sync\<close>, whenever the storage engine answers
  the queries.
\<close>

theorem default_settings_without_row:
  assumes "\<forall>r\<in>set (rows (user_settings (content db))). set_user_id r \<noteq> userId req"
    and "fault env (SELECT_nutrition_data (userId req)) = None"
    and "fault env (SELECT_workout_data (userId req)) = None"
    and "fault env (SELECT_user_settings (userId req)) = None"
  shows "get_api_settings env req db =
           Response 200 (JObj [(''settings'',
             JObj [(''height'', JNum 177), (''targetBodyFat'', JNum 15), (''currentBodyFat'', JNum 22)])])
       \<and> status (fst (get_api_sync env req db)) = 200
       \<and> body_field ''settings'' (fst (get_api_sync env req db)) =
           Some (JObj [(''height'', JNum 177), (''targetBodyFat'', JNum 15), (''currentBodyFat'', JNum 22)])"
proof -
  from assms(1) have "find (\<lambda>r. set_user_id r = userId req) (rows (user_settings (content db))) = None"
    by (simp add: find_None_iff)
  then have row: "select_user_settings env (userId req) db = Inr None"
    using assms(4) by (simp add: select_user_settings_def)
  have n: "\<exists>rs. select_nutrition_data env (userId req) db = Inr rs"
    using assms(2) by (simp add: select_nutrition_data_def)
  have w: "\<exists>rs. select_workout_data env (userId req) db = Inr rs"
    using assms(3) by (simp add: select_workout_data_def)
  from row n w show ?thesis
    by (auto simp: get_api_settings_def get_api_sync_def settings_of_row_def default_settings_def Let_def)
qed

theorem default_settings_without_row_witness:
  "get_api_settings quiet_env alice empty_database =
           Response 200 (JObj [(''settings'',
             JObj [(''height'', JNum 177), (''targetBodyFat'', JNum 15), (''currentBodyFat'', JNum 22)])])
   \<and> body_field ''settings'' (fst (get_api_sync quiet_env alice empty_database)) =
           Some (JObj [(''height'', JNum 177), (''targetBodyFat'', JNum 15), (''currentBodyFat'', JNum 22)])"
  using default_settings_without_row [of empty_database alice quiet_env]
  by (simp add: empty_database_def no_rows_def quiet_env_def)

text \<open>
  C10. A user whose settings row holds text that \<open>JSON.parse\<close> rejects gets status 200
  and the same default object from both endpoints: the \<open>catch\<close> branch answers as the
  branch for a missing row does, and no error reaches the caller.
\<close>

theorem default_settings_for_corrupt_row:
  assumes "\<exists>r\<in>set (rows (user_settings (content db))). set_user_id r = userId req"
    and "\<forall>r\<in>set (rows (user_settings (content db))).
           set_user_id r = userId req \<longrightarrow> JSON_parse (set_settings r) = None"
    and "fault env (SELECT_nutrition_data (userId req)) = None"
    and "fault env (SELECT_workout_data (userId req)) = None"
    and "fault env (SELECT_user_settings (userId req)) = None"
  shows "get_api_settings env req db =
           Response 200 (JObj [(''settings'',
             JObj [(''height'', JNum 177), (''targetBodyFat'', JNum 15), (''currentBodyFat'', JNum 22)])])
       \<and> status (fst (get_api_sync env req db)) = 200
       \<and> body_field ''settings'' (fst (get_api_sync env req db)) =
           Some (JObj [(''height'', JNum 177), (''targetBodyFat'', JNum 15), (''currentBodyFat'', JNum 22)])"
proof -
  from assms(1) obtain r where
    "find (\<lambda>r. set_user_id r = userId req) (rows (user_settings (content db))) = Some r"
    by (cases "find (\<lambda>r. set_user_id r = userId req) (rows (user_settings (content db)))")
       (auto simp: find_None_iff)
  moreover from this have "r \<in> set (rows (user_settings (content db))) \<and> set_user_id r = userId req"
    by (auto simp: find_Some_iff)
  with assms(2) have "JSON_parse (set_settings r) = None" by blast
  ultimately have row: "select_user_settings env (userId req) db = Inr (Some r)
      \<and> settings_of_row (Some r) = default_settings"
    using assms(5) by (simp add: select_user_settings_def settings_of_row_def)
  have n: "\<exists>rs. select_nutrition_data env (userId req) db = Inr rs"
    using assms(3) by (simp add: select_nutrition_data_def)
  have w: "\<exists>rs. select_workout_data env (userId req) db = Inr rs"
    using assms(4) by (simp add: select_workout_data_def)
  from row n w show ?thesis
    by (auto simp: get_api_settings_def get_api_sync_def default_settings_def Let_def)
qed

theorem default_settings_for_corrupt_row_witness:
  "JSON_parse ''{height:'' = None
   \<and> get_api_settings quiet_env alice corrupt_settings_database =
           Response 200 (JObj [(''settings'',
             JObj [(''height'', JNum 177), (''targetBodyFat'', JNum 15), (''currentBodyFat'', JNum 22)])])
   \<and> body_field ''settings'' (fst (get_api_sync quiet_env alice corrupt_settings_database)) =
           Some (JObj [(''height'', JNum 177), (''targetBodyFat'', JNum 15), (''currentBodyFat'', JNum 22)])"
proof -
  have p: "JSON_parse ''{height:'' = None" by code_simp
  show ?thesis
    using p default_settings_for_corrupt_row [of corrupt_settings_database alice quiet_env]
    by (simp add: corrupt_settings_database_def empty_database_def no_rows_def quiet_env_def alice_def)
qed

section \<open>Registration with an email that exists\<close>

text \<open>
  C8, as stated, fails: the body is validated before the store is looked at, so a
  request that repeats a stored email with a password of five characters is answered
  with \<open>PASSWORD_TOO_SHORT\<close>, not \<open>EMAIL_EXISTS\<close>.
\<close>

theorem register_short_password_counterexample:
  "''alice@example.org'' \<in> users_email ` set (rows (users (content registered_database)))
   \<and> body_field ''code'' (fst (post_api_auth_register quiet_env alice
        \<lparr>body_email = Some ''alice@example.org'', body_password = Some ''12345'', body_name = None\<rparr>
        registered_database)) = Some (JStr ''PASSWORD_TOO_SHORT'')"
  by (simp add: registered_database_def empty_database_def post_api_auth_register_def)

text \<open>
  C8, amended. A registration whose email is that of a stored user leaves the store as
  it was (no user row is added, no password hash changes); it is answered with 400
  \<open>EMAIL_EXISTS\<close> when the email is not empty, the password has at least six
  characters and the storage engine answers the look-up.
\<close>

theorem register_existing_email:
  assumes "body_email body = Some e"
    and "e \<in> users_email ` set (rows (users (content db)))"
  shows "snd (post_api_auth_register env req body db) = db
       \<and> (\<forall>p. e \<noteq> [] \<and> body_password body = Some p \<and> 6 \<le> length p
              \<and> fault env (SELECT_users_by_email e) = None
            \<longrightarrow> fst (post_api_auth_register env req body db) =
                  Response 400 (JObj [(''error'', JStr (''Email gi'' @ [CHR 0xE0] @ '' registrata'')),
                                      (''code'', JStr ''EMAIL_EXISTS'')]))"
proof -
  from assms(2) obtain u where u: "find (\<lambda>r. users_email r = e) (rows (users (content db))) = Some u"
    by (cases "find (\<lambda>r. users_email r = e) (rows (users (content db)))")
       (auto simp: find_None_iff)
  show ?thesis
    using assms(1) u
    by (cases "body_password body")
       (auto simp: post_api_auth_register_def select_users_by_email_def split: option.splits)
qed

theorem register_existing_email_witness:
  "post_api_auth_register quiet_env alice
        \<lparr>body_email = Some ''alice@example.org'', body_password = Some ''123456'', body_name = None\<rparr>
        registered_database
     = (Response 400 (JObj [(''error'', JStr (''Email gi'' @ [CHR 0xE0] @ '' registrata'')),
                                      (''code'', JStr ''EMAIL_EXISTS'')]), registered_database)"
  using register_existing_email [of "\<lparr>body_email = Some ''alice@example.org'', body_password = Some ''123456'', body_name = None\<rparr>"
           "''alice@example.org''" registered_database quiet_env alice]
  by (simp add: registered_database_def empty_database_def quiet_env_def prod_eq_iff)

section \<open>The limit of GET /api/logs\<close>

text \<open>
  C7, as stated, fails twice. \<open>limit=0\<close> is falsy, so the default 50 replaces it and
  one stored row is returned where the claim allows none. \<open>limit=-1\<close> passes
  \<open>Math.min\<close> unchanged and reaches SQLite as \<open>LIMIT -1\<close>, which bounds nothing:
  all of 101 stored rows are returned.
\<close>

theorem logs_limit_counterexample:
  "rows_returned (get_api_logs quiet_env alice (Some ''0'') (database_with_logs 1)) = 1
   \<and> rows_returned (get_api_logs quiet_env alice (Some ''-1'') (database_with_logs 101)) = 101"
proof -
  have "query_limit (Some ''0'') = 50" by code_simp
  moreover have "query_limit (Some ''-1'') = - 1" by code_simp
  ultimately show ?thesis
    by (simp add: get_api_logs_def select_activity_logs_def quiet_env_def alice_def
        database_with_logs_def empty_database_def rows_returned_def sql_limit_def)
qed

text \<open>
  C7, amended. When \<open>parseInt\<close> of the parameter is a positive \<open>n\<close>, at most
  \<open>min n 100\<close> rows are returned; when the parameter is absent, unparseable or parses
  to zero, at most 50.
\<close>

theorem logs_limit_bound:
  "(parseInt limit = None \<or> parseInt limit = Some 0
      \<longrightarrow> rows_returned (get_api_logs env req limit db) \<le> 50)
   \<and> (\<forall>n. parseInt limit = Some n \<and> 0 < n
      \<longrightarrow> int (rows_returned (get_api_logs env req limit db)) \<le> min n 100)"
  by (auto simp: get_api_logs_def select_activity_logs_def rows_returned_def sql_limit_def
      query_limit_def handleError_def split: option.splits)

theorem logs_limit_bound_witness:
  "parseInt (Some ''3'') = Some 3
   \<and> rows_returned (get_api_logs quiet_env alice (Some ''3'') (database_with_logs 5)) \<le> 3
   \<and> parseInt None = None
   \<and> rows_returned (get_api_logs quiet_env alice None (database_with_logs 60)) \<le> 50"
proof -
  have p: "parseInt (Some ''3'') = Some 3" by code_simp
  have q: "parseInt None = None" by code_simp
  show ?thesis
    using p q logs_limit_bound [of "Some ''3''" quiet_env alice "database_with_logs 5"]
      logs_limit_bound [of None quiet_env alice "database_with_logs 60"]
    by simp
qed

section \<open>The bulk write\<close>

subsection \<open>The statement queue when nothing is rejected\<close>

lemma execute_upsert_accepted: "is_upsert s \<Longrightarrow> fst (execute s db) = None"
  by (cases s) (simp_all add: Let_def)

lemma execute_upsert_snapshot: "is_upsert s \<Longrightarrow> snapshot (snd (snd (execute s db))) = snapshot db"
  by (cases s) (simp_all add: Let_def)

lemma apply_statements_Cons:
  "apply_statements (s # ss) db = apply_statements ss (snd (snd (execute s db)))"
  by (simp add: apply_statements_def)

lemma apply_statements_snapshot:
  "list_all is_upsert ss \<Longrightarrow> snapshot (apply_statements ss db) = snapshot db"
  by (induction ss arbitrary: db) (simp_all add: apply_statements_def execute_upsert_snapshot)

lemma drain_accepted_upserts:
  assumes "\<forall>s. fault env s = None" and "list_all is_upsert ss"
  shows "drain env req (map (\<lambda>s. (s, Upsert_callback)) ss @ q) vars db =
         drain env req q (vars\<lparr>operationsCount := operationsCount vars + length ss\<rparr>)
           (apply_statements ss db)"
  using assms(2)
proof (induction ss arbitrary: vars db)
  case Nil
  then show ?case by (simp add: apply_statements_def)
next
  case (Cons s ss)
  obtain i db' where ex: "execute s db = (None, i, db')"
    using execute_upsert_accepted [of s db] Cons.prems by (cases "execute s db") auto
  have "drain env req (map (\<lambda>s. (s, Upsert_callback)) (s # ss) @ q) vars db =
        drain env req (map (\<lambda>s. (s, Upsert_callback)) ss @ q)
          (vars\<lparr>operationsCount := operationsCount vars + 1\<rparr>) db'"
    using assms(1) ex by (simp add: db_run_def run_callback_def)
  also have "\<dots> = drain env req q
      ((vars\<lparr>operationsCount := operationsCount vars + 1\<rparr>)
         \<lparr>operationsCount := operationsCount (vars\<lparr>operationsCount := operationsCount vars + 1\<rparr>) + length ss\<rparr>)
      (apply_statements ss db')"
    using Cons.prems by (intro Cons.IH) simp
  finally show ?case
    using ex by (simp add: apply_statements_Cons)
qed

lemma sync_upserts_are_upserts: "list_all is_upsert (sync_upserts req body)"
  by (auto simp: sync_upserts_def section_upserts_def settings_upsert_def list_all_iff
      split: option.splits)

lemma post_api_sync_accepted:
  assumes "\<forall>s. fault env s = None" and "snapshot db = None"
  shows "post_api_sync env req body db =
     (Some (Response 200 (JObj
        [(''message'', JStr ''Sincronizzazione completata''),
         (''operations'', JNum (int (length (sync_upserts req body)))),
         (''timestamp'', JStr (now env))])),
      logActivity env (Some (userId req)) ''SYNC_SAVE''
        (''Saved '' @ show_nat (length (sync_upserts req body)) @ '' items'') req
        (committed req body db))"
proof -
  let ?ss = "sync_upserts req body"
  let ?db1 = "db\<lparr>snapshot := Some (content db)\<rparr>"
  let ?v0 = "\<lparr>hasError = False, operationsCount = 0, sent = None\<rparr>"
  have start: "drain env req (sync_statements req body) ?v0 db =
      drain env req (map (\<lambda>s. (s, Upsert_callback)) ?ss @ [(COMMIT, Commit_callback)]) ?v0 ?db1"
    using assms by (simp add: sync_statements_def db_run_def run_callback_def)
  have ups: "\<dots> = drain env req [(COMMIT, Commit_callback)]
      (?v0\<lparr>operationsCount := operationsCount ?v0 + length ?ss\<rparr>) (apply_statements ?ss ?db1)"
    by (rule drain_accepted_upserts [OF assms(1) sync_upserts_are_upserts])
  have snap: "snapshot (apply_statements ?ss ?db1) = Some (content db)"
    by (simp add: apply_statements_snapshot sync_upserts_are_upserts)
  have fin: "drain env req [(COMMIT, Commit_callback)]
      (?v0\<lparr>operationsCount := operationsCount ?v0 + length ?ss\<rparr>) (apply_statements ?ss ?db1)
    = (\<lparr>hasError = False, operationsCount = length ?ss,
         sent = Some (Response 200 (JObj
        [(''message'', JStr ''Sincronizzazione completata''),
         (''operations'', JNum (int (length ?ss))),
         (''timestamp'', JStr (now env))]))\<rparr>,
       logActivity env (Some (userId req)) ''SYNC_SAVE''
        (''Saved '' @ show_nat (length ?ss) @ '' items'') req (committed req body db))"
    using assms(1) snap
    by (simp add: db_run_def run_callback_def logActivity_def committed_def Let_def
        split: prod.splits)
  show ?thesis
    unfolding post_api_sync_def by (simp only: start ups fin) simp
qed

subsection \<open>What an upsert leaves in a document table\<close>

lemma stored_docs_upsert_doc:
  "stored_docs (upsert_doc uid' k' d t) uid k =
     (if uid' = uid \<and> k' = k then [d] else stored_docs t uid k)"
proof -
  have "filter (\<lambda>r. doc_user_id r = uid \<and> doc_month_key r = k)
          (filter (\<lambda>r. \<not> (doc_user_id r = uid' \<and> doc_month_key r = k')) (rows t)) =
        (if uid' = uid \<and> k' = k then []
         else filter (\<lambda>r. doc_user_id r = uid \<and> doc_month_key r = k) (rows t))"
    by (auto simp: filter_empty_conv intro: filter_cong)
  then show ?thesis
    by (auto simp: stored_docs_def upsert_doc_def)
qed

lemma stored_docs_execute_write:
  "stored_docs (table_of kd (snd (snd (execute (statement_of (kd', uid', k', d)) db)))) uid k =
     (if kd' = kd \<and> uid' = uid \<and> k' = k then [JSON_stringify d]
      else stored_docs (table_of kd db) uid k)"
  by (cases kd; cases kd') (simp_all add: Let_def stored_docs_upsert_doc)

lemma writes_to_Cons:
  "writes_to kd uid k ((kd', uid', k', d) # ws) =
     (if kd' = kd \<and> uid' = uid \<and> k' = k then d # writes_to kd uid k ws else writes_to kd uid k ws)"
  by (simp add: writes_to_def)

lemma writes_to_append:
  "writes_to kd uid k (ws @ ws') = writes_to kd uid k ws @ writes_to kd uid k ws'"
  by (simp add: writes_to_def)

lemma stored_docs_apply_writes:
  "stored_docs (table_of kd (apply_statements (map statement_of ws) db)) uid k =
     (case writes_to kd uid k ws of
        [] \<Rightarrow> stored_docs (table_of kd db) uid k
      | d # ds \<Rightarrow> [JSON_stringify (last (d # ds))])"
proof (induction ws arbitrary: db)
  case Nil
  then show ?case by (simp add: apply_statements_def writes_to_def)
next
  case (Cons w ws)
  obtain kd' uid' k' d where w: "w = (kd', uid', k', d)" by (cases w)
  show ?case
    unfolding w list.map apply_statements_Cons Cons.IH writes_to_Cons
    by (simp add: stored_docs_execute_write split: list.split)
qed

lemma apply_statements_append:
  "apply_statements (ss @ ss') db = apply_statements ss' (apply_statements ss db)"
  by (simp add: apply_statements_def)

lemma section_upserts_nutrition:
  "section_upserts (UPSERT_nutrition_data uid) sect = map statement_of (section_writes Nutrition uid sect)"
  by (auto simp: section_upserts_def section_writes_def split: option.splits)

lemma section_upserts_workout:
  "section_upserts (UPSERT_workout_data uid) sect = map statement_of (section_writes Workout uid sect)"
  by (auto simp: section_upserts_def section_writes_def split: option.splits)

lemma sync_upserts_writes:
  "sync_upserts req body =
     map statement_of (writes_of (Put_all req body)) @ settings_upsert (userId req) (settings body)"
  by (simp add: sync_upserts_def section_upserts_nutrition section_upserts_workout)

lemma table_of_settings_upsert:
  "table_of kd (apply_statements (settings_upsert uid sect) db) = table_of kd db"
  by (cases kd) (auto simp: settings_upsert_def apply_statements_def Let_def split: option.splits)

lemma table_of_logActivity:
  "table_of kd (logActivity env u a d req db) = table_of kd db"
  by (cases kd) (auto simp: logActivity_def db_run_def Let_def split: option.splits)

lemma snapshot_logActivity:
  "snapshot (logActivity env u a d req db) = snapshot db"
  by (auto simp: logActivity_def db_run_def Let_def split: option.splits)

lemma table_of_snapshot_update:
  "table_of kd (db\<lparr>snapshot := x\<rparr>) = table_of kd db"
  by (cases kd) simp_all

lemma stored_docs_committed:
  "stored_docs (table_of kd (committed req body db)) uid k =
     (case writes_to kd uid k (writes_of (Put_all req body)) of
        [] \<Rightarrow> stored_docs (table_of kd db) uid k
      | d # ds \<Rightarrow> [JSON_stringify (last (d # ds))])"
  unfolding committed_def table_of_snapshot_update sync_upserts_writes apply_statements_append
    table_of_settings_upsert stored_docs_apply_writes
  by (simp add: table_of_snapshot_update)

lemma handle_write_stored_docs:
  assumes "\<forall>s. fault env s = None" and "snapshot db = None"
  shows "snapshot (handle_write env r db) = None
       \<and> stored_docs (table_of kd (handle_write env r db)) uid k =
           (case writes_to kd uid k (writes_of r) of
              [] \<Rightarrow> stored_docs (table_of kd db) uid k
            | d # ds \<Rightarrow> [JSON_stringify (last (d # ds))])"
proof (cases r)
  case (Put_one kd' req k' data)
  show ?thesis
  proof (cases "truthy data")
    case False
    then show ?thesis
      using assms(2) Put_one
      by (cases kd'; cases data)
         (simp_all add: post_api_nutrition_def post_api_workouts_def writes_to_def)
  next
    case True
    then obtain d where d: "data = Some d" by (cases data) auto
    have ex: "\<And>s. db_run env s db = execute s db"
      using assms(1) by (simp add: db_run_def)
    have st: "stored_docs (table_of kd (snd (snd (execute (statement_of (kd', userId req, k', d)) db)))) uid k =
        (if kd' = kd \<and> userId req = uid \<and> k' = k then [JSON_stringify d]
         else stored_docs (table_of kd db) uid k)"
      by (rule stored_docs_execute_write)
    have sn: "snapshot (snd (snd (execute (statement_of (kd', userId req, k', d)) db))) = None"
      using assms(2) by (cases kd') (simp_all add: Let_def)
    show ?thesis
      using True d Put_one st sn
      by (cases kd')
         (auto simp: post_api_nutrition_def post_api_workouts_def ex Let_def writes_to_def
            table_of_logActivity snapshot_logActivity split: prod.splits option.splits)
  qed
next
  case (Put_all req body)
  have "snapshot (committed req body db) = None"
    by (simp add: committed_def)
  then show ?thesis
    using Put_all post_api_sync_accepted [OF assms, of req body]
    by (simp add: table_of_logActivity snapshot_logActivity stored_docs_committed)
qed

subsection \<open>The statement queue when an upsert is rejected\<close>

text \<open>
  Whatever the engine rejects among the upserts, the queue behind them is what it was
  plus, after the first rejection, \<open>ROLLBACK\<close> and a log insert; the store holds the
  upserts that were accepted.
\<close>

lemma drain_upserts:
  assumes "list_all is_upsert ss"
  shows "\<exists>vars' extra.
      drain env req (map (\<lambda>s. (s, Upsert_callback)) ss @ q) vars db =
        drain env req (q @ extra) vars' (apply_statements (filter (\<lambda>s. fault env s = None) ss) db)
      \<and> hasError vars' = (hasError vars \<or> (\<exists>s\<in>set ss. fault env s \<noteq> None))
      \<and> (hasError vars' \<and> \<not> hasError vars \<longrightarrow>
            (\<exists>e. sent vars' = Some (handleError env e ''Errore nel salvataggio bulk'')))
      \<and> (hasError vars' = hasError vars \<longrightarrow> extra = [] \<and> sent vars' = sent vars)
      \<and> list_all trailing extra"
  using assms
proof (induction ss arbitrary: vars q db)
  case Nil
  show ?case
    by (rule exI [of _ vars], rule exI [of _ "[]"]) (simp add: apply_statements_def)
next
  case (Cons s ss)
  from Cons.prems have up: "is_upsert s" and ups: "list_all is_upsert ss" by simp_all
  show ?case
  proof (cases "fault env s")
    case None
    obtain i db' where ex: "execute s db = (None, i, db')"
      using execute_upsert_accepted [OF up, of db] by (cases "execute s db") auto
    let ?v = "vars\<lparr>operationsCount := operationsCount vars + 1\<rparr>"
    have step: "drain env req (map (\<lambda>s. (s, Upsert_callback)) (s # ss) @ q) vars db =
        drain env req (map (\<lambda>s. (s, Upsert_callback)) ss @ q) ?v db'"
      using None ex by (simp add: db_run_def run_callback_def)
    from Cons.IH [OF ups, of q ?v db'] obtain vars' extra where
      "drain env req (map (\<lambda>s. (s, Upsert_callback)) ss @ q) ?v db' =
         drain env req (q @ extra) vars' (apply_statements (filter (\<lambda>s. fault env s = None) ss) db')"
      "hasError vars' = (hasError ?v \<or> (\<exists>s\<in>set ss. fault env s \<noteq> None))"
      "hasError vars' \<and> \<not> hasError ?v \<longrightarrow>
            (\<exists>e. sent vars' = Some (handleError env e ''Errore nel salvataggio bulk''))"
      "hasError vars' = hasError ?v \<longrightarrow> extra = [] \<and> sent vars' = sent ?v"
      "list_all trailing extra"
      by blast
    then show ?thesis
      using None ex step
      by (intro exI [of _ vars'] exI [of _ extra]) (simp add: apply_statements_Cons)
  next
    case (Some e)
    show ?thesis
    proof (cases "hasError vars")
      case True
      let ?v = "vars\<lparr>operationsCount := operationsCount vars + 1\<rparr>"
      have step: "drain env req (map (\<lambda>s. (s, Upsert_callback)) (s # ss) @ q) vars db =
          drain env req (map (\<lambda>s. (s, Upsert_callback)) ss @ q) ?v db"
        using Some True by (simp add: db_run_def run_callback_def)
      from Cons.IH [OF ups, of q ?v db] obtain vars' extra where
        "drain env req (map (\<lambda>s. (s, Upsert_callback)) ss @ q) ?v db =
           drain env req (q @ extra) vars' (apply_statements (filter (\<lambda>s. fault env s = None) ss) db)"
        "hasError vars' = (hasError ?v \<or> (\<exists>s\<in>set ss. fault env s \<noteq> None))"
        "hasError vars' = hasError ?v \<longrightarrow> extra = [] \<and> sent vars' = sent ?v"
        "list_all trailing extra"
        by blast
      then show ?thesis
        using Some True step
        by (intro exI [of _ vars'] exI [of _ extra]) simp
    next
      case False
      let ?v = "vars\<lparr>hasError := True,
                      sent := Some (handleError env e ''Errore nel salvataggio bulk'')\<rparr>"
      let ?x = "[(ROLLBACK, No_callback),
                 (INSERT_activity_logs (Some (userId req)) ''SYNC_SAVE_ERROR'' e
                    (ip req) (user_agent req), No_callback)]"
      have step: "drain env req (map (\<lambda>s. (s, Upsert_callback)) (s # ss) @ q) vars db =
          drain env req (map (\<lambda>s. (s, Upsert_callback)) ss @ (q @ ?x)) ?v db"
        using Some False by (simp add: db_run_def run_callback_def handleTransactionError_def)
      from Cons.IH [OF ups, of "q @ ?x" ?v db] obtain vars' extra where
        "drain env req (map (\<lambda>s. (s, Upsert_callback)) ss @ (q @ ?x)) ?v db =
           drain env req ((q @ ?x) @ extra) vars' (apply_statements (filter (\<lambda>s. fault env s = None) ss) db)"
        "hasError vars' = (hasError ?v \<or> (\<exists>s\<in>set ss. fault env s \<noteq> None))"
        "hasError vars' = hasError ?v \<longrightarrow> extra = [] \<and> sent vars' = sent ?v"
        by blast
      then show ?thesis
        using Some False step
        by (intro exI [of _ vars'] exI [of _ ?x]) (auto simp: trailing_def)
    qed
  qed
qed

lemma drain_trailing:
  assumes "list_all trailing q" and "snapshot db = None"
  shows "fst (drain env req q vars db) = vars
       \<and> table_of kd (snd (drain env req q vars db)) = table_of kd db"
  using assms
proof (induction q arbitrary: db)
  case Nil
  then show ?case by simp
next
  case (Cons x q)
  obtain s cb where x: "x = (s, cb)" by (cases x)
  from Cons.prems x have t: "trailing (s, cb)" and q: "list_all trailing q"
    by simp_all
  from t have cb: "cb = No_callback"
    and s: "s = ROLLBACK \<or> (\<exists>u a d i g. s = INSERT_activity_logs u a d i g)"
    by (simp_all add: trailing_def)
  obtain err i db' where r: "db_run env s db = (err, i, db')"
    by (cases "db_run env s db") auto
  have "snapshot db' = None \<and> table_of kd db' = table_of kd db"
    using s r Cons.prems(2)
    by (cases kd) (auto simp: db_run_def Let_def split: option.splits)
  with Cons.IH [OF q, of db'] show ?case
    using x cb r by (simp add: run_callback_def)
qed

lemma execute_upsert_snapshot_update:
  "is_upsert s \<Longrightarrow>
     snd (snd (execute s (db\<lparr>snapshot := x\<rparr>))) = (snd (snd (execute s db)))\<lparr>snapshot := x\<rparr>"
  by (cases s) (simp_all add: Let_def)

lemma apply_statements_snapshot_update:
  "list_all is_upsert ss \<Longrightarrow>
     apply_statements ss (db\<lparr>snapshot := x\<rparr>) = (apply_statements ss db)\<lparr>snapshot := x\<rparr>"
  by (induction ss arbitrary: db) (simp_all add: apply_statements_def execute_upsert_snapshot_update)

text \<open>
  So a bulk write in which an upsert is rejected, with \<open>BEGIN\<close> and \<open>COMMIT\<close>
  accepted, reports the failure and leaves every accepted upsert of the call in the
  document tables.
\<close>

lemma rejected_upsert_leaves_the_others_committed:
  assumes "snapshot db = None"
    and "fault env BEGIN_TRANSACTION = None" and "fault env COMMIT = None"
    and "\<exists>s\<in>set (sync_upserts req body). fault env s \<noteq> None"
  shows "(\<exists>e. fst (post_api_sync env req body db) =
               Some (handleError env e ''Errore nel salvataggio bulk''))
       \<and> table_of kd (snd (post_api_sync env req body db)) =
           table_of kd (apply_statements
              (filter (\<lambda>s. fault env s = None) (sync_upserts req body)) db)"
proof -
  let ?ss = "sync_upserts req body"
  let ?ok = "filter (\<lambda>s. fault env s = None) ?ss"
  let ?db1 = "db\<lparr>snapshot := Some (content db)\<rparr>"
  let ?v0 = "\<lparr>hasError = False, operationsCount = 0, sent = None\<rparr>"
  have oks: "list_all is_upsert ?ok"
    using sync_upserts_are_upserts [of req body] by (simp add: list_all_iff)
  have start: "drain env req (sync_statements req body) ?v0 db =
      drain env req (map (\<lambda>s. (s, Upsert_callback)) ?ss @ [(COMMIT, Commit_callback)]) ?v0 ?db1"
    using assms(1,2) by (simp add: sync_statements_def db_run_def run_callback_def)
  from drain_upserts [OF sync_upserts_are_upserts, of env req req body "[(COMMIT, Commit_callback)]" ?v0 ?db1]
  obtain vars' extra where
    ups: "drain env req (map (\<lambda>s. (s, Upsert_callback)) ?ss @ [(COMMIT, Commit_callback)]) ?v0 ?db1 =
        drain env req ([(COMMIT, Commit_callback)] @ extra) vars' (apply_statements ?ok ?db1)"
    and he: "hasError vars'"
    and se: "\<exists>e. sent vars' = Some (handleError env e ''Errore nel salvataggio bulk'')"
    and tr: "list_all trailing extra"
    using assms(4) by auto
  let ?db2 = "(apply_statements ?ok db)\<lparr>snapshot := None\<rparr>"
  have a: "apply_statements ?ok ?db1 = (apply_statements ?ok db)\<lparr>snapshot := Some (content db)\<rparr>"
    by (rule apply_statements_snapshot_update [OF oks])
  have fin: "drain env req ([(COMMIT, Commit_callback)] @ extra) vars' (apply_statements ?ok ?db1) =
      drain env req extra vars' ?db2"
    using assms(3) he by (simp add: a db_run_def run_callback_def)
  have "snapshot ?db2 = None" by simp
  from drain_trailing [OF tr this, of env req vars' kd]
  have "fst (drain env req extra vars' ?db2) = vars'"
    and "table_of kd (snd (drain env req extra vars' ?db2)) = table_of kd (apply_statements ?ok db)"
    by (simp_all add: table_of_snapshot_update)
  then show ?thesis
    using se unfolding post_api_sync_def start ups fin
    by (simp add: split_def)
qed

subsection \<open>Partial failure\<close>

text \<open>
  C1 does not hold of the code. \<open>COMMIT\<close> is handed to the connection before any
  callback can run, so the \<open>ROLLBACK\<close> that \<open>handleTransactionError\<close> issues is
  queued behind it. With nutrition for \<open>2025-07\<close> and \<open>2025-08\<close> submitted and the
  upsert of \<open>2025-08\<close> rejected, the caller gets status 500 and \<open>2025-07\<close> is
  stored; with the upsert of \<open>2025-07\<close> rejected instead, \<open>2025-08\<close> is stored
  (an upsert accepted after the rejected one, which is stored whatever becomes of the
  transaction at the rejection).
\<close>

theorem sync_partial_commit:
  "map_option status (fst (post_api_sync
       (rejecting (UPSERT_nutrition_data 1 ''2025-08'' (JSON_stringify (JObj [(''kcal'', JNum 2300)]))))
       alice two_months empty_database)) = Some 500
   \<and> stored_docs (nutrition_data (content (snd (post_api_sync
       (rejecting (UPSERT_nutrition_data 1 ''2025-08'' (JSON_stringify (JObj [(''kcal'', JNum 2300)]))))
       alice two_months empty_database)))) 1 ''2025-07'' = [JSON_stringify (JObj [(''kcal'', JNum 2100)])]
   \<and> map_option status (fst (post_api_sync
       (rejecting (UPSERT_nutrition_data 1 ''2025-07'' (JSON_stringify (JObj [(''kcal'', JNum 2100)]))))
       alice two_months empty_database)) = Some 500
   \<and> stored_docs (nutrition_data (content (snd (post_api_sync
       (rejecting (UPSERT_nutrition_data 1 ''2025-07'' (JSON_stringify (JObj [(''kcal'', JNum 2100)]))))
       alice two_months empty_database)))) 1 ''2025-08'' = [JSON_stringify (JObj [(''kcal'', JNum 2300)])]"
  by (simp add: post_api_sync_def sync_statements_def sync_upserts_def section_upserts_def
      settings_upsert_def two_months_def rejecting_def quiet_env_def alice_def empty_database_def
      no_rows_def db_run_def run_callback_def handleTransactionError_def handleError_def
      upsert_doc_def insert_log_def stored_docs_def)

subsection \<open>One document for each key, the last write winning\<close>

text \<open>
  C3. Take any sequence of write requests (per-resource writes and bulk writes, of any
  users) that the storage engine does not reject, started with no transaction open. If
  the sequence writes to a (kind, user, month-key) at all, the table then holds exactly
  one row for that key, and its data is \<open>JSON.stringify\<close> of the payload of the last
  write to the key: neither a second row nor a merge with an earlier payload.
\<close>

theorem last_write_wins:
  assumes "\<forall>s. fault env s = None" and "snapshot db = None"
    and "writes_to kd uid k (concat (map writes_of reqs)) \<noteq> []"
  shows "stored_docs (table_of kd (foldl (\<lambda>d r. handle_write env r d) db reqs)) uid k =
           [JSON_stringify (last (writes_to kd uid k (concat (map writes_of reqs))))]"
proof -
  have "snapshot db = None \<Longrightarrow>
        stored_docs (table_of kd (foldl (\<lambda>d r. handle_write env r d) db reqs)) uid k =
          (case writes_to kd uid k (concat (map writes_of reqs)) of
             [] \<Rightarrow> stored_docs (table_of kd db) uid k
           | d # ds \<Rightarrow> [JSON_stringify (last (d # ds))])" for db
  proof (induction reqs arbitrary: db)
    case Nil
    then show ?case by (simp add: writes_to_def)
  next
    case (Cons r rs)
    note h = handle_write_stored_docs [OF assms(1) Cons.prems, of r kd uid k]
    from h have "snapshot (handle_write env r db) = None" by simp
    from Cons.IH [OF this] h show ?case
      by (auto simp: writes_to_append split: list.splits)
  qed
  from this [OF assms(2)] assms(3) show ?thesis
    by (auto split: list.splits)
qed

theorem last_write_wins_witness:
  "stored_docs (nutrition_data (content
       (foldl (\<lambda>d r. handle_write quiet_env r d) empty_database sample_writes))) 1 ''2025-07''
     = [JSON_stringify (JObj [(''kcal'', JNum 1900)])]
   \<and> stored_docs (nutrition_data (content
       (foldl (\<lambda>d r. handle_write quiet_env r d) empty_database sample_writes))) 1 ''2025-08''
     = [JSON_stringify (JObj [(''kcal'', JNum 2300)])]"
proof -
  have f: "\<forall>s. fault quiet_env s = None" by (simp add: quiet_env_def)
  have s: "snapshot empty_database = None" by (simp add: empty_database_def)
  have w7: "writes_to Nutrition 1 ''2025-07'' (concat (map writes_of sample_writes))
      = [JObj [(''kcal'', JNum 1800)], JObj [(''kcal'', JNum 2100)], JObj [(''kcal'', JNum 1900)]]"
    by (simp add: sample_writes_def two_months_def alice_def writes_to_def section_writes_def)
  have w8: "writes_to Nutrition 1 ''2025-08'' (concat (map writes_of sample_writes))
      = [JObj [(''kcal'', JNum 2300)]]"
    by (simp add: sample_writes_def two_months_def alice_def writes_to_def section_writes_def)
  show ?thesis
    using last_write_wins [OF f s, of Nutrition 1 "''2025-07''" sample_writes]
      last_write_wins [OF f s, of Nutrition 1 "''2025-08''" sample_writes]
    unfolding w7 w8 by simp
qed

subsection \<open>Sections that are absent or not objects\<close>

lemma apply_statements_preserves:
  assumes "\<And>s d. s \<in> set ss \<Longrightarrow> f (snd (snd (execute s d))) = f d"
  shows "f (apply_statements ss db) = f db"
  using assms by (induction ss arbitrary: db) (simp_all add: apply_statements_def)

lemma section_upserts_empty:
  "\<not> (truthy sect \<and> typeof sect = ''object'') \<Longrightarrow> section_upserts upsert sect = []"
  by (auto simp: section_upserts_def split: option.splits)

lemma settings_upsert_empty:
  "\<not> (truthy sect \<and> typeof sect = ''object'') \<Longrightarrow> settings_upsert uid sect = []"
  by (auto simp: settings_upsert_def split: option.splits)

lemma section_upserts_nutrition_cases:
  "s \<in> set (section_upserts (UPSERT_nutrition_data uid) sect) \<Longrightarrow> \<exists>k d. s = UPSERT_nutrition_data uid k d"
  by (auto simp: section_upserts_def split: option.splits if_splits)

lemma section_upserts_workout_cases:
  "s \<in> set (section_upserts (UPSERT_workout_data uid) sect) \<Longrightarrow> \<exists>k d. s = UPSERT_workout_data uid k d"
  by (auto simp: section_upserts_def split: option.splits if_splits)

lemma settings_upsert_cases:
  "s \<in> set (settings_upsert uid sect) \<Longrightarrow> \<exists>d. s = UPSERT_user_settings uid d"
  by (auto simp: settings_upsert_def split: option.splits if_splits)

lemma committed_nutrition_unchanged:
  assumes "\<not> (truthy (nutrition body) \<and> typeof (nutrition body) = ''object'')"
  shows "nutrition_data (content (committed req body db)) = nutrition_data (content db)"
proof -
  have "nutrition_data (content (apply_statements (sync_upserts req body) d)) = nutrition_data (content d)" for d
    by (rule apply_statements_preserves)
       (auto simp: sync_upserts_def section_upserts_empty [OF assms] Let_def
          dest!: section_upserts_workout_cases settings_upsert_cases)
  then show ?thesis by (simp add: committed_def)
qed

lemma committed_workout_unchanged:
  assumes "\<not> (truthy (workouts body) \<and> typeof (workouts body) = ''object'')"
  shows "workout_data (content (committed req body db)) = workout_data (content db)"
proof -
  have "workout_data (content (apply_statements (sync_upserts req body) d)) = workout_data (content d)" for d
    by (rule apply_statements_preserves)
       (auto simp: sync_upserts_def section_upserts_empty [OF assms] Let_def
          dest!: section_upserts_nutrition_cases settings_upsert_cases)
  then show ?thesis by (simp add: committed_def)
qed

lemma committed_settings_unchanged:
  assumes "\<not> (truthy (settings body) \<and> typeof (settings body) = ''object'')"
  shows "user_settings (content (committed req body db)) = user_settings (content db)"
proof -
  have "user_settings (content (apply_statements (sync_upserts req body) d)) = user_settings (content d)" for d
    by (rule apply_statements_preserves)
       (auto simp: sync_upserts_def settings_upsert_empty [OF assms] Let_def
          dest!: section_upserts_nutrition_cases section_upserts_workout_cases)
  then show ?thesis by (simp add: committed_def)
qed

lemma content_logActivity:
  "nutrition_data (content (logActivity env u a d req db)) = nutrition_data (content db)
   \<and> workout_data (content (logActivity env u a d req db)) = workout_data (content db)
   \<and> user_settings (content (logActivity env u a d req db)) = user_settings (content db)"
  by (auto simp: logActivity_def db_run_def Let_def split: option.splits)

lemma entry_writes_aux:
  "distinct (map fst xs) \<Longrightarrow> (k, d) \<in> set xs \<Longrightarrow>
     writes_to kd uid k (map (\<lambda>a. (kd, uid, a)) xs) = [d]"
proof (induction xs)
  case Nil
  then show ?case by simp
next
  case (Cons x xs)
  obtain k' d' where x: "x = (k', d')" by (cases x)
  show ?case
  proof (cases "k' = k")
    case True
    with Cons.prems x have "d' = d" and "k \<notin> fst ` set xs"
      by (auto simp: image_iff)
    then have "writes_to kd uid k (map (\<lambda>a. (kd, uid, a)) xs) = []"
      by (auto simp: writes_to_def filter_empty_conv image_iff)
    with True x \<open>d' = d\<close> show ?thesis by (simp add: writes_to_Cons)
  next
    case False
    with Cons x show ?thesis by (auto simp: writes_to_Cons)
  qed
qed

lemma entry_writes:
  assumes "distinct (map fst xs)" and "(k, d) \<in> set xs"
  shows "writes_to kd uid k (map (\<lambda>(k, d). (kd, uid, k, d)) xs) = [d]"
proof -
  have eq: "map (\<lambda>(k, d). (kd, uid, k, d)) xs = map (\<lambda>a. (kd, uid, a)) xs"
    by (rule map_cong) auto
  show ?thesis
    unfolding eq by (rule entry_writes_aux [OF assms])
qed

lemma other_kind_writes:
  "kd' \<noteq> kd \<Longrightarrow> writes_to kd uid k (section_writes kd' uid' sect) = []"
  by (auto simp: writes_to_def section_writes_def filter_empty_conv split: option.splits)

lemma stored_settings_committed:
  assumes "settings body = Some v" and "truthy (Some v)" and "typeof (Some v) = ''object''"
  shows "map set_settings (filter (\<lambda>r. set_user_id r = userId req)
           (rows (user_settings (content (committed req body db))))) = [JSON_stringify v]"
proof -
  have "sync_upserts req body =
      (section_upserts (UPSERT_nutrition_data (userId req)) (nutrition body)
        @ section_upserts (UPSERT_workout_data (userId req)) (workouts body))
      @ [UPSERT_user_settings (userId req) (JSON_stringify v)]"
    using assms by (simp add: sync_upserts_def settings_upsert_def)
  then show ?thesis
    by (simp add: committed_def apply_statements_append apply_statements_def [of "[x]" for x]
        Let_def upsert_settings_def)
qed

text \<open>
  C4. When nothing is rejected, \<open>POST /api/sync\<close> answers 200 with the number of
  upserts it issued. A section that fails \<open>x && typeof x === 'object'\<close> (it is absent,
  or it is a string, a number, a boolean or \<open>null\<close>) leaves its table exactly as it
  was; every entry of a section that passes the test is stored under its key, and so is
  the settings object.
\<close>

theorem sync_skips_absent_and_malformed_sections:
  assumes "\<forall>s. fault env s = None" and "snapshot db = None"
  shows "fst (post_api_sync env req body db) =
           Some (Response 200 (JObj
             [(''message'', JStr ''Sincronizzazione completata''),
              (''operations'', JNum (int (length (sync_upserts req body)))),
              (''timestamp'', JStr (now env))]))
       \<and> (\<not> (truthy (nutrition body) \<and> typeof (nutrition body) = ''object'') \<longrightarrow>
            nutrition_data (content (snd (post_api_sync env req body db))) = nutrition_data (content db))
       \<and> (\<not> (truthy (workouts body) \<and> typeof (workouts body) = ''object'') \<longrightarrow>
            workout_data (content (snd (post_api_sync env req body db))) = workout_data (content db))
       \<and> (\<not> (truthy (settings body) \<and> typeof (settings body) = ''object'') \<longrightarrow>
            user_settings (content (snd (post_api_sync env req body db))) = user_settings (content db))
       \<and> (\<forall>v k d. nutrition body = Some v \<and> truthy (Some v) \<and> typeof (Some v) = ''object''
              \<and> distinct (map fst (Object_entries v)) \<and> (k, d) \<in> set (Object_entries v) \<longrightarrow>
            stored_docs (nutrition_data (content (snd (post_api_sync env req body db)))) (userId req) k
              = [JSON_stringify d])
       \<and> (\<forall>v k d. workouts body = Some v \<and> truthy (Some v) \<and> typeof (Some v) = ''object''
              \<and> distinct (map fst (Object_entries v)) \<and> (k, d) \<in> set (Object_entries v) \<longrightarrow>
            stored_docs (workout_data (content (snd (post_api_sync env req body db)))) (userId req) k
              = [JSON_stringify d])
       \<and> (\<forall>v. settings body = Some v \<and> truthy (Some v) \<and> typeof (Some v) = ''object'' \<longrightarrow>
            map set_settings (filter (\<lambda>r. set_user_id r = userId req)
              (rows (user_settings (content (snd (post_api_sync env req body db)))))) = [JSON_stringify v])"
proof -
  note r = post_api_sync_accepted [OF assms, of req body]
  have n: "stored_docs (nutrition_data (content (committed req body db))) (userId req) k = [JSON_stringify d]"
    if "nutrition body = Some v" "truthy (Some v)" "typeof (Some v) = ''object''"
       "distinct (map fst (Object_entries v))" "(k, d) \<in> set (Object_entries v)" for v k d
  proof -
    have "writes_to Nutrition (userId req) k (writes_of (Put_all req body)) = [d]"
      using that by (simp add: writes_to_append other_kind_writes)
                    (simp add: section_writes_def entry_writes)
    then show ?thesis
      using stored_docs_committed [of Nutrition req body db "userId req" k] by simp
  qed
  have w: "stored_docs (workout_data (content (committed req body db))) (userId req) k = [JSON_stringify d]"
    if "workouts body = Some v" "truthy (Some v)" "typeof (Some v) = ''object''"
       "distinct (map fst (Object_entries v))" "(k, d) \<in> set (Object_entries v)" for v k d
  proof -
    have "writes_to Workout (userId req) k (writes_of (Put_all req body)) = [d]"
      using that by (simp add: writes_to_append other_kind_writes)
                    (simp add: section_writes_def entry_writes)
    then show ?thesis
      using stored_docs_committed [of Workout req body db "userId req" k] by simp
  qed
  show ?thesis
    unfolding r fst_conv snd_conv
    using n w
    by (simp add: content_logActivity committed_nutrition_unchanged committed_workout_unchanged
        committed_settings_unchanged stored_settings_committed)
qed

theorem sync_skips_absent_and_malformed_sections_witness:
  "fst (post_api_sync quiet_env alice malformed_workouts workout_database) =
           Some (Response 200 (JObj
             [(''message'', JStr ''Sincronizzazione completata''),
              (''operations'', JNum 2),
              (''timestamp'', JStr (now quiet_env))]))
   \<and> workout_data (content (snd (post_api_sync quiet_env alice malformed_workouts workout_database)))
       = workout_data (content workout_database)
   \<and> user_settings (content (snd (post_api_sync quiet_env alice malformed_workouts workout_database)))
       = user_settings (content workout_database)
   \<and> stored_docs (nutrition_data (content (snd (post_api_sync quiet_env alice malformed_workouts workout_database))))
        1 ''2025-07'' = [JSON_stringify (JObj [(''kcal'', JNum 2100)])]
   \<and> stored_docs (nutrition_data (content (snd (post_api_sync quiet_env alice malformed_workouts workout_database))))
        1 ''2025-08'' = [JSON_stringify (JObj [(''kcal'', JNum 2300)])]"
proof -
  have f: "\<forall>s. fault quiet_env s = None" by (simp add: quiet_env_def)
  have s: "snapshot workout_database = None" by (simp add: workout_database_def empty_database_def)
  have n: "length (sync_upserts alice malformed_workouts) = 2"
    by (simp add: sync_upserts_def section_upserts_def settings_upsert_def malformed_workouts_def
        two_months_def)
  note t = sync_skips_absent_and_malformed_sections [OF f s, of alice malformed_workouts]
  from t have "\<forall>k d. (k, d) \<in> {(''2025-07'', JObj [(''kcal'', JNum 2100)]), (''2025-08'', JObj [(''kcal'', JNum 2300)])} \<longrightarrow>
      stored_docs (nutrition_data (content (snd (post_api_sync quiet_env alice malformed_workouts workout_database))))
        (userId alice) k = [JSON_stringify d]"
    by (simp add: malformed_workouts_def two_months_def)
  then show ?thesis
    using t n by (simp add: malformed_workouts_def two_months_def alice_def)
qed

text \<open>
  An array is \<open>typeof 'object'\<close> as well: a section that is an array passes the test
  and its elements are stored under their indices.
\<close>

lemma array_section_is_stored_by_index:
  "typeof (Some (JArr [JStr ''squat''])) = ''object''
   \<and> stored_docs (workout_data (content (snd (post_api_sync quiet_env alice
        \<lparr>nutrition = None, workouts = Some (JArr [JStr ''squat'']), settings = None\<rparr>
        empty_database)))) 1 ''0'' = [JSON_stringify (JStr ''squat'')]"
proof -
  have e: "Object_entries (JArr [JStr ''squat'']) = [(''0'', JStr ''squat'')]"
    by code_simp
  show ?thesis
    by (simp add: e post_api_sync_def sync_statements_def sync_upserts_def section_upserts_def
      settings_upsert_def quiet_env_def alice_def empty_database_def
      no_rows_def db_run_def run_callback_def upsert_doc_def insert_log_def stored_docs_def
      del: Object_entries.simps)
qed

section \<open>Reading documents back\<close>

subsection \<open>The result object of a read\<close>

lemma map_of_js_assign:
  "k \<noteq> ''__proto__'' \<Longrightarrow>
     map_of (js_assign obj k' v) k = (if k' = k then Some v else map_of obj k)"
  by (auto simp: js_assign_def update_conv')

lemma map_of_collect_step:
  assumes "k \<noteq> ''__proto__''"
  shows "map_of (foldl (\<lambda>obj row. case JSON_parse (doc_data row) of
                         None \<Rightarrow> obj
                       | Some v \<Rightarrow> js_assign obj (doc_month_key row) v) acc rs) k =
     (case filter (\<lambda>r. JSON_parse (doc_data r) \<noteq> None) (filter (\<lambda>r. doc_month_key r = k) rs) of
        [] \<Rightarrow> map_of acc k
      | x # xs \<Rightarrow> JSON_parse (doc_data (last (x # xs))))"
proof (induction rs arbitrary: acc)
  case Nil
  then show ?case by simp
next
  case (Cons r rs)
  show ?case
    by (cases "JSON_parse (doc_data r)")
       (auto simp: Cons.IH map_of_js_assign [OF assms] split: list.splits)
qed

lemma filter_order_by_month_key_desc:
  assumes "length (filter Q rs) \<le> 1"
  shows "filter Q (order_by_month_key_desc rs) = filter Q rs"
proof -
  have "filter Q (order_by_month_key_desc rs) = rev (sort_key doc_month_key (filter Q rs))"
    by (simp add: order_by_month_key_desc_def rev_filter [symmetric] filter_sort)
  also have "\<dots> = filter Q rs"
    using assms by (cases "filter Q rs") (auto simp: le_Suc_eq)
  finally show ?thesis .
qed

lemma find_as_filter:
  "find P xs = (case filter P xs of [] \<Rightarrow> None | x # ys \<Rightarrow> Some x)"
  by (induction xs) auto

lemma map_of_collect_rows:
  assumes "k \<noteq> ''__proto__''" and "length (filter (\<lambda>r. doc_month_key r = k) rs) \<le> 1"
  shows "map_of (collect_rows (order_by_month_key_desc rs)) k =
     (case find (\<lambda>r. doc_month_key r = k) rs of None \<Rightarrow> None | Some r \<Rightarrow> JSON_parse (doc_data r))"
proof -
  from assms(2) consider "filter (\<lambda>r. doc_month_key r = k) rs = []"
    | r where "filter (\<lambda>r. doc_month_key r = k) rs = [r]"
    by (cases "filter (\<lambda>r. doc_month_key r = k) rs") (auto simp: le_Suc_eq)
  then show ?thesis
  proof cases
    case 1
    then show ?thesis
      unfolding collect_rows_def map_of_collect_step [OF assms(1)]
        filter_order_by_month_key_desc [OF assms(2)] find_as_filter
      by simp
  next
    case 2
    then show ?thesis
      unfolding collect_rows_def map_of_collect_step [OF assms(1)]
        filter_order_by_month_key_desc [OF assms(2)] find_as_filter
      by (cases "JSON_parse (doc_data r)") simp_all
  qed
qed

lemma unique_keys_filter:
  "unique_keys t \<Longrightarrow>
     length (filter (\<lambda>r. doc_month_key r = k) (filter (\<lambda>r. doc_user_id r = uid) (rows t))) \<le> 1"
proof -
  have "distinct (map f xs) \<Longrightarrow> length (filter (\<lambda>x. f x = y) xs) \<le> 1" for f :: "doc_row \<Rightarrow> nat \<times> string" and xs y
    by (induction xs) (auto simp: filter_empty_conv image_iff)
  from this [of "\<lambda>r. (doc_user_id r, doc_month_key r)" "rows t" "(uid, k)"]
  show "unique_keys t \<Longrightarrow> ?thesis"
    by (simp add: unique_keys_def)
qed

lemma unique_keys_upsert_doc: "unique_keys t \<Longrightarrow> unique_keys (upsert_doc uid k d t)"
  by (auto simp: unique_keys_def upsert_doc_def distinct_map_filter)

lemma find_user_key:
  "find (\<lambda>r. doc_month_key r = k) (filter (\<lambda>r. doc_user_id r = uid) rs) =
   find (\<lambda>r. doc_user_id r = uid \<and> doc_month_key r = k) rs"
  by (induction rs) auto

lemma upsert_doc_single:
  "filter (\<lambda>r. doc_month_key r = k) (filter (\<lambda>r. doc_user_id r = uid) (rows (upsert_doc uid k d t)))
     = [\<lparr>doc_id = Suc (seq t), doc_user_id = uid, doc_month_key = k, doc_data = d\<rparr>]"
  by (auto simp: upsert_doc_def filter_empty_conv)

subsection \<open>Write, then read\<close>

text \<open>
  C2 does not hold of the code for the month key \<open>__proto__\<close>. The write is accepted
  and the row is stored, its text parses back to the payload, but the read handler
  builds its result with \<open>nutritionData[row.month_key] = ...\<close> on a plain object,
  which for this key sets the prototype instead of a property: the response carries no
  document at all. The same holds for workouts.
\<close>

theorem proto_month_key_lost:
  "JSON_parse (JSON_stringify (JObj [(''kcal'', JNum 2100)])) = Some (JObj [(''kcal'', JNum 2100)])
   \<and> status (fst (post_api_nutrition quiet_env alice ''__proto__''
                      (Some (JObj [(''kcal'', JNum 2100)])) empty_database)) = 200
   \<and> get_api_nutrition quiet_env alice
        (snd (post_api_nutrition quiet_env alice ''__proto__''
                (Some (JObj [(''kcal'', JNum 2100)])) empty_database))
       = Response 200 (JObj [(''nutrition'', JObj [])])
   \<and> status (fst (post_api_workouts quiet_env alice ''__proto__''
                      (Some (JObj [(''kcal'', JNum 2100)])) empty_database)) = 200
   \<and> get_api_workouts quiet_env alice
        (snd (post_api_workouts quiet_env alice ''__proto__''
                (Some (JObj [(''kcal'', JNum 2100)])) empty_database))
       = Response 200 (JObj [(''workouts'', JObj [])])"
proof -
  have p: "JSON_parse (JSON_stringify (JObj [(''kcal'', JNum 2100)])) = Some (JObj [(''kcal'', JNum 2100)])"
    by code_simp
  show ?thesis
    unfolding post_api_nutrition_def post_api_workouts_def get_api_nutrition_def get_api_workouts_def
      select_nutrition_data_def select_workout_data_def
    by (simp add: p quiet_env_def alice_def empty_database_def no_rows_def db_run_def Let_def
      logActivity_def upsert_doc_def insert_log_def order_by_month_key_desc_def collect_rows_def
      js_assign_def del: JSON_stringify.simps)
qed

text \<open>
  For every other month key the read returns, under that key, what \<open>JSON.parse\<close>
  makes of the text \<open>JSON.stringify\<close> made of the payload.
\<close>

lemma put_then_get:
  assumes "\<forall>s. fault env s = None" and "truthy (Some d)" and "monthKey \<noteq> ''__proto__''"
  shows "status (fst (post_api_nutrition env req monthKey (Some d) db)) = 200
       \<and> property monthKey (body_field ''nutrition''
            (get_api_nutrition env req (snd (post_api_nutrition env req monthKey (Some d) db))))
           = JSON_parse (JSON_stringify d)
       \<and> status (fst (post_api_workouts env req monthKey (Some d) db)) = 200
       \<and> property monthKey (body_field ''workouts''
            (get_api_workouts env req (snd (post_api_workouts env req monthKey (Some d) db))))
           = JSON_parse (JSON_stringify d)"
proof -
  let ?t = "\<lambda>t. upsert_doc (userId req) monthKey (JSON_stringify d) t"
  have one: "length (filter (\<lambda>r. doc_month_key r = monthKey)
                (filter (\<lambda>r. doc_user_id r = userId req) (rows (?t t)))) \<le> 1" for t
    by (simp only: upsert_doc_single) simp
  have found: "find (\<lambda>r. doc_month_key r = monthKey)
                (filter (\<lambda>r. doc_user_id r = userId req) (rows (?t t)))
      = Some \<lparr>doc_id = Suc (seq t), doc_user_id = userId req, doc_month_key = monthKey,
              doc_data = JSON_stringify d\<rparr>" for t
    by (simp only: find_as_filter upsert_doc_single) simp
  show ?thesis
    using assms(1,2)
    by (simp add: post_api_nutrition_def post_api_workouts_def get_api_nutrition_def
        get_api_workouts_def select_nutrition_data_def select_workout_data_def db_run_def
        logActivity_def Let_def map_of_collect_rows [OF assms(3) one] found
        del: JSON_stringify.simps)
qed

text \<open>
  With \<open>JSON_roundtrip\<close>: a truthy payload written under any month key but
  \<open>__proto__\<close> is what the read returns under that key.
\<close>

lemma write_then_read_round_trip:
  assumes "\<forall>s. fault env s = None" and "truthy (Some d)" and "wf_json d"
    and "monthKey \<noteq> ''__proto__''"
  shows "property monthKey (body_field ''nutrition''
            (get_api_nutrition env req (snd (post_api_nutrition env req monthKey (Some d) db))))
           = Some d
       \<and> property monthKey (body_field ''workouts''
            (get_api_workouts env req (snd (post_api_workouts env req monthKey (Some d) db))))
           = Some d"
  using put_then_get [OF assms(1,2,4), of req db] JSON_roundtrip [OF assms(3)]
  by simp

subsection \<open>Rows that do not parse\<close>

text \<open>
  C5 does not hold of the code for a stored document under the month key
  \<open>__proto__\<close>, by the defect shown for C2: of three stored rows, one unparseable,
  \<open>GET /api/sync\<close> answers 200 and returns the document of \<open>2025-08\<close>, but it omits
  the parseable document stored under \<open>__proto__\<close> along with the unparseable one.
\<close>

theorem sync_read_drops_proto_document:
  "JSON_parse (JSON_stringify (JObj [(''kcal'', JNum 2100)])) = Some (JObj [(''kcal'', JNum 2100)])
   \<and> status (fst (get_api_sync quiet_env alice proto_database)) = 200
   \<and> body_field ''nutrition'' (fst (get_api_sync quiet_env alice proto_database))
       = Some (JObj [(''2025-08'', JObj [(''kcal'', JNum 2300)])])"
proof -
  have p: "JSON_parse (JSON_stringify (JObj [(''kcal'', JNum 2100)])) = Some (JObj [(''kcal'', JNum 2100)])"
    by code_simp
  have q: "collect_rows (order_by_month_key_desc (filter (\<lambda>r. doc_user_id r = 1)
             (rows (nutrition_data (content proto_database)))))
           = [(''2025-08'', JObj [(''kcal'', JNum 2300)])]"
    by code_simp
  show ?thesis
    using q
    by (simp add: p get_api_sync_def select_nutrition_data_def select_workout_data_def
        select_user_settings_def quiet_env_def alice_def Let_def del: JSON_stringify.simps)
qed

text \<open>
  For every other month key the read is lenient as described: under the key it returns
  the parsed document when the user's row parses, and nothing when the row does not
  parse or there is no row.
\<close>

lemma read_is_lenient:
  assumes "fault env (SELECT_nutrition_data (userId req)) = None"
    and "fault env (SELECT_workout_data (userId req)) = None"
    and "fault env (SELECT_user_settings (userId req)) = None"
    and "unique_keys (nutrition_data (content db))" and "unique_keys (workout_data (content db))"
    and "k \<noteq> ''__proto__''"
  shows "status (fst (get_api_sync env req db)) = 200
       \<and> property k (body_field ''nutrition'' (fst (get_api_sync env req db))) =
           (case find (\<lambda>r. doc_user_id r = userId req \<and> doc_month_key r = k)
                   (rows (nutrition_data (content db))) of
              None \<Rightarrow> None
            | Some r \<Rightarrow> JSON_parse (doc_data r))
       \<and> property k (body_field ''workouts'' (fst (get_api_sync env req db))) =
           (case find (\<lambda>r. doc_user_id r = userId req \<and> doc_month_key r = k)
                   (rows (workout_data (content db))) of
              None \<Rightarrow> None
            | Some r \<Rightarrow> JSON_parse (doc_data r))"
  using assms(1-3)
  by (simp add: get_api_sync_def select_nutrition_data_def select_workout_data_def
      select_user_settings_def Let_def
      map_of_collect_rows [OF assms(6) unique_keys_filter [OF assms(4)]]
      map_of_collect_rows [OF assms(6) unique_keys_filter [OF assms(5)]] find_user_key)

section \<open>The uniqueness constraint under any write\<close>

text \<open>
  Whatever the storage engine rejects, a sequence of write requests never leaves two
  rows for one (user, month-key) in a document table.
\<close>

lemma execute_unique: "store_unique db \<Longrightarrow> store_unique (snd (snd (execute s db)))"
  by (cases s) (auto simp: store_unique_def Let_def unique_keys_upsert_doc split: option.splits)

lemma db_run_unique: "store_unique db \<Longrightarrow> store_unique (snd (snd (db_run env s db)))"
  by (auto simp: db_run_def execute_unique split: option.splits)

lemma drain_unique: "store_unique db \<Longrightarrow> store_unique (snd (drain env req q vars db))"
proof (induction env req q vars db rule: drain.induct)
  case (1 env req vars db)
  then show ?case by simp
next
  case (2 env req s cb q vars db)
  obtain err i db' where r: "db_run env s db = (err, i, db')"
    by (cases "db_run env s db") auto
  obtain vars' q' where c: "run_callback env req cb err (vars, q) = (vars', q')"
    by (cases "run_callback env req cb err (vars, q)") auto
  from db_run_unique [OF "2.prems", of env s] r have "store_unique db'" by simp
  from "2.IH" [OF r [symmetric] refl c [symmetric] this] show ?case
    using r c by simp
qed

lemma logActivity_unique: "store_unique db \<Longrightarrow> store_unique (logActivity env u a d req db)"
  by (simp add: logActivity_def db_run_unique)

lemma post_api_nutrition_unique:
  assumes "store_unique db"
  shows "store_unique (snd (post_api_nutrition env req k data db))"
proof (cases data)
  case None
  then show ?thesis using assms by (simp add: post_api_nutrition_def)
next
  case (Some d)
  obtain err i db' where
    r: "db_run env (UPSERT_nutrition_data (userId req) k (JSON_stringify d)) db = (err, i, db')"
    by (cases "db_run env (UPSERT_nutrition_data (userId req) k (JSON_stringify d)) db") auto
  from db_run_unique [OF assms, of env "UPSERT_nutrition_data (userId req) k (JSON_stringify d)"] r
  have "store_unique db'" by simp
  then show ?thesis
    using Some r assms
    by (cases err) (simp_all add: post_api_nutrition_def logActivity_unique del: JSON_stringify.simps)
qed

lemma post_api_workouts_unique:
  assumes "store_unique db"
  shows "store_unique (snd (post_api_workouts env req k data db))"
proof (cases data)
  case None
  then show ?thesis using assms by (simp add: post_api_workouts_def)
next
  case (Some d)
  obtain err i db' where
    r: "db_run env (UPSERT_workout_data (userId req) k (JSON_stringify d)) db = (err, i, db')"
    by (cases "db_run env (UPSERT_workout_data (userId req) k (JSON_stringify d)) db") auto
  from db_run_unique [OF assms, of env "UPSERT_workout_data (userId req) k (JSON_stringify d)"] r
  have "store_unique db'" by simp
  then show ?thesis
    using Some r assms
    by (cases err) (simp_all add: post_api_workouts_def logActivity_unique del: JSON_stringify.simps)
qed

lemma handle_write_unique: "store_unique db \<Longrightarrow> store_unique (handle_write env r db)"
proof (cases r)
  case (Put_one kd req k data)
  assume "store_unique db"
  then show ?thesis
    using Put_one by (cases kd) (simp_all add: post_api_nutrition_unique post_api_workouts_unique)
next
  case (Put_all req body)
  assume "store_unique db"
  then show ?thesis
    using Put_all
      drain_unique [of db env req "sync_statements req body"
        "\<lparr>hasError = False, operationsCount = 0, sent = None\<rparr>"]
    by (simp add: post_api_sync_def split_def)
qed

lemma writes_keep_keys_unique:
  assumes "store_unique db"
  shows "length (stored_docs (table_of kd (foldl (\<lambda>d r. handle_write env r d) db reqs)) uid k) \<le> 1"
proof -
  have "store_unique (foldl (\<lambda>d r. handle_write env r d) db reqs)"
    using assms by (induction reqs arbitrary: db) (simp_all add: handle_write_unique)
  then have "unique_keys (table_of kd (foldl (\<lambda>d r. handle_write env r d) db reqs))"
    by (cases kd) (simp_all add: store_unique_def)
  from unique_keys_filter [OF this, of k uid] show ?thesis
    by (simp add: stored_docs_def conj_commute)
qed

end
